theory Spec2Isabelle
  imports Main "HOL-Library.Word" "HOL-Library.AList" "HOL-Library.Signed_Division"
begin

section \<open>Data model of package rest\<close>

text \<open>
  The request execution engine of package \<open>rest\<close> (\<open>RequestBuilder.DoRequest\<close>,
  \<open>doRequest\<close> and the header helpers behind them) and the fork-join front end
  (\<open>Concurrent\<close>, \<open>FutureResponse\<close>), embedded as HOL functions.

  Conventions. A Go \<open>string\<close> or \<open>[]byte\<close> is a \<open>string\<close> (a list of bytes). A Go
  \<open>error\<close> is the text of the error; a nil error is \<open>None\<close>. A \<open>time.Time\<close> is the
  instant it denotes, in nanoseconds since the Unix epoch (\<open>int\<close>); a \<open>time.Duration\<close>
  is the 64-bit signed nanosecond count it is in Go (\<open>64 word\<close>, read with \<open>sint\<close>),
  so that arithmetic on durations wraps as it does there. A nil pointer is \<open>None\<close>.
  An \<open>http.Header\<close> is an association list from header name to its values; the names
  are the canonical MIME names that \<open>http.Header\<close>'s own methods produce.
\<close>

type_synonym error = string
type_synonym time = int
type_synonym duration = "64 word"
type_synonym header = "(string \<times> string list) list"

definition hGet :: "header \<Rightarrow> string \<Rightarrow> string" where
  \<comment> \<open>\<open>Header.Get\<close>: the first value of the name, or the empty string.\<close>
  "hGet h k = (case map_of h k of Some (v # _) \<Rightarrow> v | _ \<Rightarrow> [])"

definition hValues :: "header \<Rightarrow> string \<Rightarrow> string list" where
  "hValues h k = (case map_of h k of Some vs \<Rightarrow> vs | None \<Rightarrow> [])"

definition hSet :: "header \<Rightarrow> string \<Rightarrow> string \<Rightarrow> header" where
  \<comment> \<open>\<open>Header.Set\<close>: the name now has exactly this value.\<close>
  "hSet h k v = AList.update k [v] h"

definition hAdd :: "header \<Rightarrow> string \<Rightarrow> string \<Rightarrow> header" where
  \<comment> \<open>\<open>Header.Add\<close>: the value is appended to the values of the name.\<close>
  "hAdd h k v = AList.update k (hValues h k @ [v]) h"

definition hDel :: "header \<Rightarrow> string \<Rightarrow> header" where
  \<comment> \<open>The builtin \<open>delete(h, k)\<close>.\<close>
  "hDel h k = AList.delete k h"

record http_response =
  StatusCode :: int
  Header :: header
  Body :: "error + string"
    \<comment> \<open>what \<open>ioutil.ReadAll\<close> gives on the body stream: an error or all its bytes\<close>

text \<open>
  \<open>Response\<close>: the embedded \<open>*http.Response\<close> (nil in a fresh \<open>new(Response)\<close>), the
  error field, the decoded body and the cache metadata. Its declaration is not among the
  sources; the fields are the ones \<open>doRequest\<close>, \<open>setParams\<close>, \<open>setTTL\<close>,
  \<open>setLastModified\<close> and \<open>setETag\<close> read and write.
\<close>

record Response =
  http :: "http_response option"
  Err :: "error option"
  byteBody :: string
  ttl :: "time option"
  lastModified :: "time option"
  etag :: string
  revalidate :: bool
  cacheHit :: bool

definition new_Response :: Response where
  \<comment> \<open>\<open>new(Response)\<close>: every field at its zero value.\<close>
  "new_Response = \<lparr>http = None, Err = None, byteBody = [], ttl = None,
     lastModified = None, etag = [], revalidate = False, cacheHit = False\<rparr>"

section \<open>Cache metadata from response headers\<close>

subsection \<open>The pattern \<open>(?:max-age|s-maxage)=(\d+)\<close>\<close>

definition is_digit :: "char \<Rightarrow> bool" where
  "is_digit c = (c \<in> set ''0123456789'')"

definition digitsAt :: "string \<Rightarrow> string option" where
  \<comment> \<open>\<open>(\d+)\<close>: the longest run of digits at the front, which must not be empty.\<close>
  "digitsAt s = (let d = takeWhile is_digit s in if d = [] then None else Some d)"

definition matchAt :: "string \<Rightarrow> string option" where
  \<comment> \<open>The pattern anchored at the front of \<open>s\<close>; the result is the capture group.\<close>
  "matchAt s =
     (if take 8 s = ''max-age='' then digitsAt (drop 8 s)
      else if take 9 s = ''s-maxage='' then digitsAt (drop 9 s)
      else None)"

fun maxAge :: "string \<Rightarrow> string option" where
  \<comment> \<open>\<open>maxAge.FindStringSubmatch(s)\<close>, element 1: the capture of the leftmost match,
      \<open>None\<close> when the pattern does not match (the returned slice is nil).\<close>
  "maxAge [] = None"
| "maxAge (c # cs) =
     (case matchAt (c # cs) of Some d \<Rightarrow> Some d | None \<Rightarrow> maxAge cs)"

subsection \<open>\<open>strconv.Atoi\<close> on a run of digits\<close>

definition digit_val :: "char \<Rightarrow> int" where
  "digit_val c = int (of_char c) - 48"

definition atoi :: "string \<Rightarrow> error + int" where
  \<comment> \<open>\<open>strconv.Atoi\<close> with a 64-bit \<open>int\<close>, on the unsigned decimal strings that the
      capture group hands it: the value, or a range error above \<open>2^63 - 1\<close>. Anything
      else is a syntax error (a sign, which \<open>Atoi\<close> would accept, cannot reach it).\<close>
  "atoi s =
     (if s = [] \<or> \<not> list_all is_digit s then Inl ''invalid syntax''
      else let v = foldl (\<lambda>a c. 10 * a + digit_val c) 0 s
           in if v > 9223372036854775807 then Inl ''value out of range'' else Inr v)"

subsection \<open>\<open>setTTL\<close>, \<open>setLastModified\<close>, \<open>setETag\<close>\<close>

definition Second :: duration where
  "Second = 1000000000"

definition time_Add :: "time \<Rightarrow> duration \<Rightarrow> time" where
  \<comment> \<open>\<open>Time.Add\<close>: the instant moved by the signed duration.\<close>
  "time_Add t d = t + sint d"

definition resp_Header :: "Response \<Rightarrow> header option" where
  \<comment> \<open>The promoted field \<open>resp.Header\<close>; \<open>None\<close> is the nil dereference when the
      embedded \<open>*http.Response\<close> is nil.\<close>
  "resp_Header r = map_option Header (http r)"

definition httpDateFormat :: string where
  \<comment> \<open>The layout constant of the package, as it is written there. Its second field is
      \<open>01\<close>, which in a Go layout is the two-digit month; the day of the month would be
      \<open>02\<close>. What \<open>time.Parse\<close> makes of a date under this layout is the business of
      the parameter \<open>parse\<close> below.\<close>
  "httpDateFormat = ''Mon, 01 Jan 2006 15:04:05 GMT''"

definition setTTL :: "time \<Rightarrow> (string \<Rightarrow> string \<Rightarrow> time option) \<Rightarrow> Response \<Rightarrow> (bool \<times> Response) option" where
  \<comment> \<open>\<open>now\<close> is \<open>time.Now()\<close>, \<open>parse layout value\<close> is \<open>time.Parse(layout, value)\<close>
      (\<open>None\<close> when it returns an error). The result is the flag \<open>set\<close> and the updated
      Response; \<open>None\<close> is a panic.\<close>
  "setTTL now parse resp =
     (case resp_Header resp of
        None \<Rightarrow> None
      | Some h \<Rightarrow>
          (case maxAge (hGet h ''Cache-Control'') of
             Some d \<Rightarrow>
               (case atoi d of
                  Inl err \<Rightarrow> Some (False, resp)
                | Inr n \<Rightarrow>
                    if n > 0
                    then Some (True, resp\<lparr>ttl := Some (time_Add now (word_of_int n * Second))\<rparr>)
                    else Some (False, resp))
           | None \<Rightarrow>
               (case parse httpDateFormat (hGet h ''Expires'') of
                  None \<Rightarrow> Some (False, resp)
                | Some expires \<Rightarrow>
                    if expires - now > 0
                    then Some (True, resp\<lparr>ttl := Some expires\<rparr>)
                    else Some (False, resp))))"

definition setLastModified :: "(string \<Rightarrow> string \<Rightarrow> time option) \<Rightarrow> Response \<Rightarrow> (bool \<times> Response) option" where
  "setLastModified parse resp =
     (case resp_Header resp of
        None \<Rightarrow> None
      | Some h \<Rightarrow>
          (case parse httpDateFormat (hGet h ''Last-Modified'') of
             None \<Rightarrow> Some (False, resp)
           | Some t \<Rightarrow> Some (True, resp\<lparr>lastModified := Some t\<rparr>)))"

definition setETag :: "Response \<Rightarrow> (bool \<times> Response) option" where
  "setETag resp =
     (case resp_Header resp of
        None \<Rightarrow> None
      | Some h \<Rightarrow> Some (hGet h ''Etag'' \<noteq> [], resp\<lparr>etag := hGet h ''Etag''\<rparr>))"

section \<open>Requests, options and the request builder\<close>

record request =
  Method :: string
  URL :: string
  reqBody :: string
  reqHeader :: header

text \<open>
  \<open>reqOptions\<close> is what the \<open>Option\<close> functions of a call fill in. \<open>doRequest\<close> reads
  two things from it: \<open>opt.Headers()\<close> and, through \<open>opt.Context()\<close>, the headers that
  \<open>tracing.ForwardedHeaders\<close> finds in the context (nil when there are none).
\<close>

record reqOptions =
  optHeaders :: header
  optForwarded :: header

type_synonym Option = "reqOptions \<Rightarrow> reqOptions"

definition zero_reqOptions :: reqOptions where
  "zero_reqOptions = \<lparr>optHeaders = [], optForwarded = []\<rparr>"

datatype ContentType = JSON | XML | BYTES

datatype body = Bytes string | Obj string
  \<comment> \<open>a non-nil \<open>interface{}\<close> body: a \<open>[]byte\<close>, or another Go value (named by a string)\<close>

record BasicAuth =
  UserName :: string
  Password :: string

record MetricsConfig =
  TargetId :: string
  DisableApiCallMetrics :: bool
  DisableHttpConnectionsMetrics :: bool

datatype proxy = ProxyURL string | ProxyFromEnvironment

record http_transport =
  tMaxIdleConnsPerHost :: int
  tProxy :: proxy
  tDialTimeout :: duration
  tResponseHeaderTimeout :: duration

datatype round_tripper = HttpTransport http_transport | OtherRoundTripper string
  \<comment> \<open>an \<open>http.RoundTripper\<close>: a \<open>*http.Transport\<close>, or a round tripper of another type\<close>

text \<open>
  \<open>CustomPool\<close>: the pool a builder may point to, with the fields that \<open>getTransport\<close>,
  \<open>getMaxIdleConnsPerHost\<close> and \<open>getProxy\<close> read and write. \<open>once\<close> is true when the
  pool's \<open>sync.Once\<close> has run. The builder holds the pool by value here; a pool shared
  by several builders is not represented. Of an \<open>http.Transport\<close> the four fields that
  \<open>makeTransport\<close> sets are kept; its \<open>DialContext\<close> is the timeout of the dialer.
\<close>

record CustomPool =
  MaxIdleConnsPerHost :: int
  Proxy :: string
  Transport :: "round_tripper option"
  once :: bool

record http_client =
  clientTransport :: "round_tripper option"
    \<comment> \<open>the transport inside the \<open>tracedRoundTripper\<close>\<close>
  clientTimeout :: duration
  avoidRedirect :: bool

type_synonym netresult = "error + http_response"
  \<comment> \<open>what \<open>Client.Do\<close> returns: a non-nil error, or a nil error and a non-nil response\<close>

type_synonym RetryStrategy = "request \<Rightarrow> netresult \<Rightarrow> nat \<Rightarrow> bool \<times> duration"
  \<comment> \<open>\<open>ShouldRetry(request, httpResp, responseErr, retries)\<close>, giving \<open>Retry()\<close> and
      \<open>Delay()\<close> of its answer\<close>

record CircuitBreaker =
  Allow :: "bool \<times> error option"
    \<comment> \<open>the two results of \<open>Allow()\<close>: whether the callback \<open>after\<close> is non-nil, and the
        error\<close>

record RequestBuilder =
  BaseURL :: string
  ContentType :: ContentType
  Headers :: header
  Timeout :: duration
  ConnectTimeout :: duration
  DisableTimeout :: bool
  FollowRedirect :: bool
  EnableCache :: bool
  UncompressResponse :: bool
  BasicAuth :: "BasicAuth option"
  UserAgent :: string
  poolName :: string
  MetricsConfig :: MetricsConfig
  RetryStrategy :: "RetryStrategy option"
  circuitBreaker :: "CircuitBreaker option"
  Client :: "http_client option"
  clientMtxOnce :: bool
    \<comment> \<open>true when \<open>clientMtxOnce\<close> has run\<close>
  CustomPool :: "CustomPool option"

section \<open>Effects: the shared state, the trace and the outside world\<close>

datatype event =
    BreakerAllow
  | BreakerAfter bool
  | CacheGet string
  | CacheSetNX string
  | NetCall request
  | ApiCallMetric string "int option" bool
  | SimpleMetric string "string list"
  | InsightsEvent string
  | DrainBody
  | Sleep duration
  | LimiterAction
  | FutureStore nat

text \<open>
  The state a call works on: the builder behind the pointer \<open>rb\<close>, the process-wide
  \<open>resourceCache\<close> and \<open>poolMap\<close>, the cells of the \<open>FutureResponse\<close>s allocated so far
  (\<open>None\<close>: nothing stored yet; \<open>Some p\<close>: the pointer \<open>p\<close> was stored) and the trace of
  the calls made to the collaborators, oldest first. In \<open>ApiCallMetric\<close> the outcome
  label is \<open>None\<close> for \<open>"error"\<close> and \<open>Some c\<close> for the decimal text of status \<open>c\<close>.
\<close>

record state =
  rb :: RequestBuilder
  cache :: "string \<rightharpoonup> Response"
  poolMap :: "string list"
  cells :: "Response option option list"
  trace :: "event list"

datatype gz_result = GzHeaderErr error | GzReadErr error | GzOk string
  \<comment> \<open>\<open>gzip.NewReader\<close> fails (and returns a nil reader), or \<open>ioutil.ReadAll\<close> of the
      reader fails, or the data is decoded\<close>

text \<open>
  The behaviour of everything outside the package, as functions:
  the clock, \<open>time.Parse\<close> and \<open>Time.Format\<close> (both take the layout), the marshallers,
  the \<open>%T(%v)\<close> rendering of a body, the mock-server rewriting of \<open>checkMockup\<close>
  (\<open>None\<close> when \<open>mockUpEnv\<close> is false), the validation of \<open>http.NewRequest\<close>, the
  answer of the network to the attempt with a given index, the answer of \<open>retryLimiter\<close>
  at a given retry count, \<open>getCallerFile()\<close>, gzip decoding, \<open>millisString\<close> (which
  goes through floating point), the value of the basic-auth header, the package
  defaults \<open>DefaultTimeout\<close>, \<open>DefaultConnectTimeout\<close> and \<open>DefaultMaxIdleConnsPerHost\<close>,
  and whether \<open>url.Parse\<close> accepts a proxy URL.
\<close>

record env =
  now :: time
  parseTime :: "string \<Rightarrow> string \<Rightarrow> time option"
  formatTime :: "string \<Rightarrow> time \<Rightarrow> string"
  jsonMarshal :: "body \<Rightarrow> error + string"
  xmlMarshal :: "body \<Rightarrow> error + string"
  fmtBody :: "body \<Rightarrow> string"
  mockUp :: "(string \<Rightarrow> error + string) option"
  newRequestErr :: "string \<Rightarrow> string \<Rightarrow> error option"
  transport :: "nat \<Rightarrow> request \<Rightarrow> netresult"
  limiterAdmits :: "nat \<Rightarrow> bool"
  callerFile :: string
  gunzip :: "string \<Rightarrow> gz_result"
  millisString :: "duration \<Rightarrow> string"
  basicAuthValue :: "string \<Rightarrow> string \<Rightarrow> string"
  DefaultTimeout :: duration
  DefaultConnectTimeout :: duration
  DefaultMaxIdleConnsPerHost :: int
  proxyParses :: "string \<Rightarrow> bool"

definition log :: "event \<Rightarrow> state \<Rightarrow> state" where
  "log ev s = s\<lparr>trace := trace s @ [ev]\<rparr>"

subsection \<open>The Resource Cache\<close>

definition cache_get :: "time \<Rightarrow> string \<Rightarrow> state \<Rightarrow> Response option \<times> state" where
  \<comment> \<open>Modelled from the spec: \<open>resourceCache.get\<close> is not among the sources. Section 4.2:
      \<open>Get(url) -> Response|absent\<close>, with no eviction beyond TTL expiry checked at read
      time, a read of an expired entry behaving as a cache miss.\<close>
  "cache_get t url s =
     (let s' = log (CacheGet url) s in
      case cache s url of
        None \<Rightarrow> (None, s')
      | Some r \<Rightarrow>
          (case ttl r of
             None \<Rightarrow> (Some r, s')
           | Some x \<Rightarrow>
               if x \<le> t then (None, s'\<lparr>cache := (cache s)(url := None)\<rparr>)
               else (Some r, s')))"

definition cache_setNX :: "string \<Rightarrow> Response \<Rightarrow> state \<Rightarrow> state" where
  \<comment> \<open>Modelled from the spec: \<open>resourceCache.setNX\<close> is not among the sources. Section 4.2:
      \<open>SetIfAbsent(url, response)\<close>, insert-if-absent.\<close>
  "cache_setNX url r s =
     (let s' = log (CacheSetNX url) s in
      case cache s url of
        None \<Rightarrow> s'\<lparr>cache := (cache s)(url \<mapsto> r)\<rparr>
      | Some _ \<Rightarrow> s')"

section \<open>The helpers of \<open>doRequest\<close>\<close>

fun matchVerbs :: "string \<Rightarrow> string list \<Rightarrow> bool" where
  "matchVerbs s [] = False"
| "matchVerbs s (x # xs) = (if x = s then True else matchVerbs s xs)"

definition readVerbs :: "string list" where
  "readVerbs = [''GET'', ''HEAD'', ''OPTIONS'']"

definition contentVerbs :: "string list" where
  "contentVerbs = [''POST'', ''PUT'', ''PATCH'']"

definition marshalReqBody :: "env \<Rightarrow> RequestBuilder \<Rightarrow> body option \<Rightarrow> error + string" where
  "marshalReqBody e b bdy =
     (case bdy of
        None \<Rightarrow> Inr []
      | Some v \<Rightarrow>
          (case ContentType b of
             JSON \<Rightarrow> jsonMarshal e v
           | XML \<Rightarrow> xmlMarshal e v
           | BYTES \<Rightarrow>
               (case v of
                  Bytes bs \<Rightarrow> Inr bs
                | Obj x \<Rightarrow> Inl (''bytes: body is '' @ fmtBody e v @ '' not a byte slice''))))"

definition checkMockup :: "env \<Rightarrow> string \<Rightarrow> string \<times> string \<times> error option" where
  \<comment> \<open>the request URL, the cache URL and the error\<close>
  "checkMockup e reqURL =
     (case mockUp e of
        None \<Rightarrow> (reqURL, reqURL, None)
      | Some rewrite \<Rightarrow>
          (case rewrite reqURL of
             Inl err \<Rightarrow> (reqURL, reqURL, Some err)
           | Inr u \<Rightarrow> (u, reqURL, None)))"

definition getRequestTimeout :: "env \<Rightarrow> RequestBuilder \<Rightarrow> duration" where
  "getRequestTimeout e b =
     (if DisableTimeout b then 0
      else if 0 <s Timeout b then Timeout b
      else DefaultTimeout e)"

definition getConnectionTimeout :: "env \<Rightarrow> RequestBuilder \<Rightarrow> duration" where
  "getConnectionTimeout e b =
     (if DisableTimeout b then 0
      else if 0 <s ConnectTimeout b then ConnectTimeout b
      else DefaultConnectTimeout e)"

definition getMaxIdleConnsPerHost :: "env \<Rightarrow> RequestBuilder \<Rightarrow> int" where
  "getMaxIdleConnsPerHost e b =
     (case CustomPool b of
        Some cp \<Rightarrow> MaxIdleConnsPerHost cp
      | None \<Rightarrow> DefaultMaxIdleConnsPerHost e)"

definition getProxy :: "env \<Rightarrow> RequestBuilder \<Rightarrow> proxy" where
  "getProxy e b =
     (case CustomPool b of
        Some cp \<Rightarrow>
          if Proxy cp \<noteq> [] \<and> proxyParses e (Proxy cp) then ProxyURL (Proxy cp)
          else ProxyFromEnvironment
      | None \<Rightarrow> ProxyFromEnvironment)"

definition makeTransport :: "env \<Rightarrow> RequestBuilder \<Rightarrow> round_tripper" where
  "makeTransport e b = HttpTransport
     \<lparr>tMaxIdleConnsPerHost = getMaxIdleConnsPerHost e b, tProxy = getProxy e b,
      tDialTimeout = getConnectionTimeout e b,
      tResponseHeaderTimeout = getRequestTimeout e b\<rparr>"

definition getTransport :: "env \<Rightarrow> RequestBuilder \<Rightarrow> round_tripper option \<times> CustomPool option" where
  \<comment> \<open>the transport returned, and the pool after \<open>cp.once.Do\<close>\<close>
  "getTransport e b =
     (case CustomPool b of
        None \<Rightarrow> (Some (makeTransport e b), None)
      | Some cp \<Rightarrow>
          (let cp' =
             (if once cp then cp
              else (case Transport cp of
                      None \<Rightarrow> cp\<lparr>Transport := Some (makeTransport e b), once := True\<rparr>
                    | Some (HttpTransport ctr) \<Rightarrow>
                        cp\<lparr>Transport := Some (HttpTransport
                              (ctr\<lparr>tDialTimeout := getConnectionTimeout e b,
                                   tResponseHeaderTimeout := getRequestTimeout e b\<rparr>)),
                           once := True\<rparr>
                    | Some (OtherRoundTripper x) \<Rightarrow> cp\<lparr>once := True\<rparr>))
           in (Transport cp', Some cp')))"

definition buildClient :: "env \<Rightarrow> RequestBuilder \<Rightarrow> RequestBuilder" where
  \<comment> \<open>The function \<open>clientMtxOnce.Do\<close> runs: \<open>rb.Client\<close> is assigned a new client,
      whatever it held.\<close>
  "buildClient e b =
     (case getTransport e b of
        (tr, cp') \<Rightarrow>
          b\<lparr>Client := Some \<lparr>clientTransport = tr,
                 clientTimeout = getConnectionTimeout e b + getRequestTimeout e b,
                 avoidRedirect = (\<not> FollowRedirect b)\<rparr>,
            clientMtxOnce := True, CustomPool := cp'\<rparr>)"

definition getClient :: "env \<Rightarrow> state \<Rightarrow> state" where
  \<comment> \<open>\<open>rb.clientMtxOnce.Do(...)\<close>: the client is built at the first call on the builder
      and not again, so that a caller who sets \<open>rb.Client\<close> to nil after the first call
      gets nil from then on. The call \<open>rb.Client.Do\<close> that follows is in \<open>attempt\<close>.\<close>
  "getClient e s = (if clientMtxOnce (rb s) then s else s\<lparr>rb := buildClient e (rb s)\<rparr>)"

definition addValues :: "header \<Rightarrow> string \<times> string list \<Rightarrow> header" where
  \<comment> \<open>\<open>for _, value := range values { req.Header.Add(key, value) }\<close>\<close>
  "addValues h kv = foldl (\<lambda>h' v. hAdd h' (fst kv) v) h (snd kv)"

definition setParams :: "env \<Rightarrow> RequestBuilder \<Rightarrow> request \<Rightarrow> Response option \<Rightarrow> string \<Rightarrow> request" where
  "setParams e b req cacheResp cacheURL =
     (let h1 = (if Headers b \<noteq> [] then foldl addValues (reqHeader req) (Headers b)
                else reqHeader req);
          h2 = hSet (hSet h1 ''Connection'' ''keep-alive'') ''Cache-Control'' ''no-cache'';
          h3 = (if mockUp e \<noteq> None then hSet h2 ''X-Original-Url'' cacheURL else h2);
          h4 = (case BasicAuth b of
                  None \<Rightarrow> h3
                | Some a \<Rightarrow> hSet h3 ''Authorization'' (basicAuthValue e (UserName a) (Password a)));
          h5 = hSet h4 ''User-Agent''
                 (if UserAgent b \<noteq> [] then UserAgent b else ''github.com/go-loco/restful'');
          cType = (case ContentType b of JSON \<Rightarrow> ''json'' | XML \<Rightarrow> ''xml'' | BYTES \<Rightarrow> []);
          h6 = (if cType \<noteq> []
                then (let h = hSet h5 ''Accept'' (''application/'' @ cType)
                      in if matchVerbs (Method req) contentVerbs
                         then hSet h ''Content-Type'' (''application/'' @ cType) else h)
                else h5);
          h7 = (case cacheResp of
                  None \<Rightarrow> h6
                | Some c \<Rightarrow>
                    if revalidate c
                    then (if etag c \<noteq> [] then hSet h6 ''If-None-Match'' (etag c)
                          else (case lastModified c of
                                  Some t \<Rightarrow> hSet h6 ''If-Modified-Since'' (formatTime e httpDateFormat t)
                                | None \<Rightarrow> h6))
                    else h6)
      in req\<lparr>reqHeader := h7\<rparr>)"

definition sendRestMetrics :: "state \<Rightarrow> state" where
  \<comment> \<open>\<open>poolMap.LoadOrStore\<close>; the first time a pool name is seen, \<open>buildMetricData\<close>
      sends the configuration event.\<close>
  "sendRestMetrics s =
     (if poolName (rb s) \<in> set (poolMap s) then s
      else log (InsightsEvent (poolName (rb s))) (s\<lparr>poolMap := poolMap s @ [poolName (rb s)]\<rparr>))"

definition namePool :: "env \<Rightarrow> state \<Rightarrow> state" where
  \<comment> \<open>\<open>if rb.poolName == "" { rb.poolName = getCallerFile(); sendRestMetrics(rb) }\<close>\<close>
  "namePool e s =
     (if poolName (rb s) = []
      then sendRestMetrics (s\<lparr>rb := (rb s)\<lparr>poolName := callerFile e\<rparr>\<rparr>)
      else s)"

definition addOptHeaders :: "header \<Rightarrow> header \<Rightarrow> header" where
  \<comment> \<open>\<open>for k := range headers { request.Header.Add(k, headers.Get(k)) }\<close>\<close>
  "addOptHeaders h opts = foldl (\<lambda>h' kv. hAdd h' (fst kv) (hGet opts (fst kv))) h opts"

definition toLower :: "string \<Rightarrow> string" where
  \<comment> \<open>\<open>strings.ToLower\<close> on the bytes of a header name: the letters \<open>A\<close> to \<open>Z\<close> are
      lowered. The upper-case letters beyond ASCII, which \<open>strings.ToLower\<close> lowers too,
      are left as they are.\<close>
  "toLower x = map (\<lambda>c. if (65::nat) \<le> of_char c \<and> of_char c \<le> (90::nat)
                        then char_of (of_char c + (32::nat)) else c) x"

definition forwardStep :: "header \<Rightarrow> header \<times> event list \<Rightarrow> string \<times> string list \<Rightarrow> header \<times> event list" where
  \<comment> \<open>One round of the loop over the forwarded headers: a header the caller has set to
      another value is kept and a metric recorded, any other is set.\<close>
  "forwardStep fwd acc kv =
     (let value = hGet fwd (fst kv); v = hGet (fst acc) (fst kv)
      in if v \<noteq> [] \<and> v \<noteq> value
         then (fst acc, snd acc @ [SimpleMetric ''platform.traffic.forwarded_header.diff''
                 [''stack:go-meli-toolkit'', ''header:'' @ toLower (fst kv)]])
         else (hSet (fst acc) (fst kv) value, snd acc))"

definition attempt ::
  "env \<Rightarrow> string \<Rightarrow> string \<Rightarrow> string \<Rightarrow> Response option \<Rightarrow> string \<Rightarrow> reqOptions \<Rightarrow> nat \<Rightarrow> state
     \<Rightarrow> state + request \<times> netresult \<times> state" where
  \<comment> \<open>The body of the retry loop from \<open>setParams\<close> to the call metric: the request is
      decorated, the pool is named, the request is sent and the outcome is recorded.
      \<open>Inl\<close> is the panic of \<open>rb.getClient().Do(req)\<close> on a nil client, which
      \<open>getClient\<close> returns when \<open>clientMtxOnce\<close> has run and \<open>rb.Client\<close> is nil.\<close>
  "attempt e verb reqURL bdy cacheResp cacheURL opt retries s =
     (let r0 = \<lparr>Method = verb, URL = reqURL, reqBody = bdy, reqHeader = []\<rparr>;
          r1 = setParams e (rb s) r0 cacheResp cacheURL;
          s1 = namePool e s;
          h1 = hSet (hSet (reqHeader r1) ''X-Socket-Timeout''
                       (millisString e (getRequestTimeout e (rb s1))))
                 ''X-Rest-Pool-Name'' (poolName (rb s1));
          h2 = addOptHeaders h1 (optHeaders opt);
          fw = foldl (forwardStep (optForwarded opt)) (h2, []) (optForwarded opt);
          r2 = r1\<lparr>reqHeader := fst fw\<rparr>;
          s2 = s1\<lparr>trace := trace s1 @ snd fw\<rparr>;
          sc = getClient e s2
      in if Client (rb sc) = None then Inl sc
         else let s3 = log (NetCall r2) sc;
                  res = transport e retries r2;
                  s4 = (if DisableApiCallMetrics (MetricsConfig (rb s3)) then s3
                        else log (ApiCallMetric (TargetId (MetricsConfig (rb s3)))
                               (case res of Inl err \<Rightarrow> None | Inr hr \<Rightarrow> Some (StatusCode hr))
                               (retries > 0)) s3)
              in Inr (r2, res, s4))"

section \<open>The retry loop\<close>

definition retryFunc :: "netresult \<Rightarrow> duration \<Rightarrow> state \<Rightarrow> state" where
  \<comment> \<open>The closure \<open>retryFunc\<close>: the body of a response is drained, the delay is slept.
      Its \<open>retries++\<close> is the \<open>Suc retries\<close> of the next round; the \<open>X-Retry\<close> header
      it sets goes onto the request already sent, which the next round replaces.\<close>
  "retryFunc res delay s =
     log (Sleep delay) (case res of Inl err \<Rightarrow> s | Inr hr \<Rightarrow> log DrainBody s)"

definition retryBreak :: "state \<Rightarrow> state" where
  "retryBreak s =
     (if DisableApiCallMetrics (MetricsConfig (rb s)) then s
      else log (SimpleMetric ''go.api_call.retry_break''
             [''target_id:'' @ TargetId (MetricsConfig (rb s))]) s)"

datatype loop_result = LoopErr error | LoopDone netresult | LoopPanic
  \<comment> \<open>\<open>http.NewRequest\<close> failed inside the loop, or the loop ended with this answer, or
      an attempt panicked on a nil client\<close>

definition limiterAction :: "env \<Rightarrow> nat \<Rightarrow> (state \<Rightarrow> state) \<Rightarrow> state \<Rightarrow> bool \<times> state" where
  \<comment> \<open>Modelled from the spec: \<open>retryLimiter.Action\<close> is not among the sources. Section
      4.1, step 4c: a bounded concurrency limiter mediates the retry; when it admits the
      retry it runs the function it is given and returns no error (the flag is true), when
      it rejects it returns an error without running it.\<close>
  "limiterAction e retries f s =
     (if limiterAdmits e retries then (True, f (log LimiterAction s))
      else (False, log LimiterAction s))"

text \<open>
  The loop \<open>for !end\<close>. It has no bound of its own: it runs for as long as the strategy
  asks for a retry and the breaker or the limiter lets it. The first argument after the
  environment is fuel, the number of rounds allowed; \<open>None\<close> is fuel running out.
\<close>

fun retryLoop ::
  "env \<Rightarrow> nat \<Rightarrow> string \<Rightarrow> string \<Rightarrow> string \<Rightarrow> Response option \<Rightarrow> string \<Rightarrow> reqOptions \<Rightarrow> nat \<Rightarrow> state
     \<Rightarrow> (loop_result \<times> state) option" where
  "retryLoop e 0 verb reqURL bdy cacheResp cacheURL opt retries s = None"
| "retryLoop e (Suc fuel) verb reqURL bdy cacheResp cacheURL opt retries s =
     (case newRequestErr e verb reqURL of
        Some err \<Rightarrow> Some (LoopErr err, s)
      | None \<Rightarrow>
          (case attempt e verb reqURL bdy cacheResp cacheURL opt retries s of
             Inl s1 \<Rightarrow> Some (LoopPanic, s1)
           | Inr (request, res, s1) \<Rightarrow>
               (case RetryStrategy (rb s1) of
                  None \<Rightarrow> Some (LoopDone res, s1)
                | Some shouldRetry \<Rightarrow>
                    (case shouldRetry request res retries of
                       (retry, delay) \<Rightarrow>
                         if retry
                         then (if circuitBreaker (rb s1) \<noteq> None
                               then retryLoop e fuel verb reqURL bdy cacheResp cacheURL opt
                                      (Suc retries) (retryFunc res delay s1)
                               else (case limiterAction e retries (retryFunc res delay) s1 of
                                       (admitted, s2) \<Rightarrow>
                                         if admitted
                                         then retryLoop e fuel verb reqURL bdy cacheResp cacheURL
                                                opt (Suc retries) s2
                                         else Some (LoopDone res, retryBreak s2)))
                         else Some (LoopDone res, s1)))))"

section \<open>\<open>doRequest\<close> and \<open>DoRequest\<close>\<close>

datatype outcome = Returns "Response option" | Panics
  \<comment> \<open>the function returns a \<open>*Response\<close> (\<open>None\<close> is nil), or it panics\<close>

definition cacheLookup :: "env \<Rightarrow> string \<Rightarrow> string \<Rightarrow> state \<Rightarrow> Response option \<times> state" where
  \<comment> \<open>The lookup at the head of \<open>doRequest\<close>. \<open>cacheResp.cacheHit.Store(true)\<close> writes
      through the pointer, so the cached entry itself is marked.\<close>
  "cacheLookup e verb reqURL s =
     (if EnableCache (rb s) \<and> matchVerbs verb readVerbs
      then (case cache_get (now e) reqURL s of
              (None, s') \<Rightarrow> (None, s')
            | (Some c, s') \<Rightarrow>
                (Some (c\<lparr>cacheHit := True\<rparr>),
                 s'\<lparr>cache := (cache s')(reqURL \<mapsto> c\<lparr>cacheHit := True\<rparr>)\<rparr>))
      else (None, s))"

definition dropConditional :: "state \<Rightarrow> state" where
  \<comment> \<open>\<open>if !rb.EnableCache { delete(rb.Headers, "If-None-Match");
      delete(rb.Headers, "If-Modified-Since") }\<close>\<close>
  "dropConditional s =
     (if \<not> EnableCache (rb s)
      then s\<lparr>rb := (rb s)\<lparr>Headers := hDel (hDel (Headers (rb s)) ''If-None-Match'')
                                     ''If-Modified-Since''\<rparr>\<rparr>
      else s)"

definition decodeBody :: "env \<Rightarrow> RequestBuilder \<Rightarrow> http_response \<Rightarrow> string \<Rightarrow> Response \<Rightarrow> Response \<times> bool" where
  \<comment> \<open>The body is stored as it is or decoded. The flag is true when \<open>gzip.NewReader\<close>
      failed: \<open>defer gr.Close()\<close> was registered on the nil reader, and \<open>Close\<close>
      dereferences it when \<open>doRequest\<close> returns.\<close>
  "decodeBody e b httpResp respBody result =
     (if \<not> UncompressResponse b then (result\<lparr>byteBody := respBody\<rparr>, False)
      else let enc = hGet (Header httpResp) ''Content-Encoding'';
               respEncoding = (if enc = [] then hGet (Header httpResp) ''Content-Type'' else enc)
           in if respEncoding = ''gzip'' \<or> respEncoding = ''application/x-gzip''
              then (if respBody = [] then (result, False)
                    else (case gunzip e respBody of
                            GzHeaderErr err \<Rightarrow> (result\<lparr>Err := Some err\<rparr>, True)
                          | GzReadErr err \<Rightarrow> (result\<lparr>Err := Some err\<rparr>, False)
                          | GzOk uncompressedData \<Rightarrow> (result\<lparr>byteBody := uncompressedData\<rparr>, False)))
              else (result\<lparr>byteBody := respBody\<rparr>, False))"

definition cacheMeta :: "env \<Rightarrow> Response \<Rightarrow> (bool \<times> Response) option" where
  \<comment> \<open>\<open>setTTL\<close>, \<open>setLastModified\<close>, \<open>setETag\<close> and the revalidation flag; the boolean is
      \<open>ttl || lastModified || etag\<close>.\<close>
  "cacheMeta e result =
     (case setTTL (now e) (parseTime e) result of
        None \<Rightarrow> None
      | Some (t, r1) \<Rightarrow>
          (case setLastModified (parseTime e) r1 of
             None \<Rightarrow> None
           | Some (lm, r2) \<Rightarrow>
               (case setETag r2 of
                  None \<Rightarrow> None
                | Some (et, r3) \<Rightarrow>
                    Some (t \<or> lm \<or> et,
                          if \<not> t \<and> (lm \<or> et) then r3\<lparr>revalidate := True\<rparr> else r3))))"

definition failed :: "error \<Rightarrow> Response" where
  \<comment> \<open>\<open>result.Err = err; return\<close> on the fresh \<open>result\<close>\<close>
  "failed err = new_Response\<lparr>Err := Some err\<rparr>"

definition respond :: "env \<Rightarrow> string \<Rightarrow> string \<Rightarrow> Response option \<Rightarrow> http_response \<Rightarrow> state \<Rightarrow> outcome \<times> state" where
  \<comment> \<open>\<open>doRequest\<close> from \<open>ioutil.ReadAll\<close> to its end.\<close>
  "respond e verb cacheURL cacheResp httpResp s =
     (case Body httpResp of
        Inl err \<Rightarrow> (Returns (Some (failed err)), s)
      | Inr respBody \<Rightarrow>
          if EnableCache (rb s) \<and> StatusCode httpResp = 304 then (Returns cacheResp, s)
          else (case decodeBody e (rb s) httpResp respBody (new_Response\<lparr>http := Some httpResp\<rparr>) of
                  (result, gzPanic) \<Rightarrow>
                    (case cacheMeta e result of
                       None \<Rightarrow> (Panics, s)
                     | Some (found, result') \<Rightarrow>
                         (if gzPanic then Panics else Returns (Some result'),
                          if EnableCache (rb s) \<and> matchVerbs verb readVerbs \<and> found
                          then cache_setNX cacheURL result' s else s))))"

definition doRequest ::
  "env \<Rightarrow> nat \<Rightarrow> string \<Rightarrow> string \<Rightarrow> body option \<Rightarrow> reqOptions \<Rightarrow> state \<Rightarrow> (outcome \<times> state) option" where
  \<comment> \<open>\<open>None\<close>: the retry loop did not end within the fuel.\<close>
  "doRequest e fuel verb reqURL0 bdy opt s =
     (let reqURL = BaseURL (rb s) @ reqURL0
      in case cacheLookup e verb reqURL s of
           (cacheResp, s1) \<Rightarrow>
             if (case cacheResp of Some c \<Rightarrow> \<not> revalidate c | None \<Rightarrow> False)
             then Some (Returns cacheResp, s1)
             else (let s2 = dropConditional s1
                   in case marshalReqBody e (rb s2) bdy of
                        Inl err \<Rightarrow> Some (Returns (Some (failed err)), s2)
                      | Inr b \<Rightarrow>
                          (case checkMockup e reqURL of
                             (u, cacheURL, Some err) \<Rightarrow> Some (Returns (Some (failed err)), s2)
                           | (u, cacheURL, None) \<Rightarrow>
                               (case retryLoop e fuel verb u b cacheResp cacheURL opt 0 s2 of
                                  None \<Rightarrow> None
                                | Some (LoopPanic, s3) \<Rightarrow> Some (Panics, s3)
                                | Some (LoopErr err, s3) \<Rightarrow> Some (Returns (Some (failed err)), s3)
                                | Some (LoopDone (Inl err), s3) \<Rightarrow>
                                    Some (Returns (Some (failed err)), s3)
                                | Some (LoopDone (Inr httpResp), s3) \<Rightarrow>
                                    Some (respond e verb cacheURL cacheResp httpResp s3)))))"

definition denied :: "error \<Rightarrow> Response" where
  \<comment> \<open>\<open>&Response{Err: err, Response: &http.Response{StatusCode: 500}}\<close>\<close>
  "denied err = new_Response\<lparr>Err := Some err,
     http := Some \<lparr>StatusCode = 500, Header = [], Body = Inr []\<rparr>\<rparr>"

definition callAfter :: "Response option \<Rightarrow> state \<Rightarrow> outcome \<times> state" where
  \<comment> \<open>\<open>success := result.Err == nil && result.StatusCode/100 != 5; after(success)\<close>,
      with the nil dereferences of \<open>result\<close> and of its embedded response.\<close>
  "callAfter result s =
     (case result of
        None \<Rightarrow> (Panics, s)
      | Some r \<Rightarrow>
          (case Err r of
             Some err \<Rightarrow> (Returns result, log (BreakerAfter False) s)
           | None \<Rightarrow>
               (case http r of
                  None \<Rightarrow> (Panics, s)
                | Some hr \<Rightarrow>
                    (Returns result, log (BreakerAfter (StatusCode hr sdiv 100 \<noteq> 5)) s))))"

definition DoRequest ::
  "env \<Rightarrow> nat \<Rightarrow> string \<Rightarrow> string \<Rightarrow> body option \<Rightarrow> Option list \<Rightarrow> state \<Rightarrow> (outcome \<times> state) option" where
  "DoRequest e fuel verb reqURL bdy opts s =
     (let reqOpt = foldl (\<lambda>ro opt. opt ro) zero_reqOptions opts
      in case circuitBreaker (rb s) of
           None \<Rightarrow> doRequest e fuel verb reqURL bdy reqOpt s
         | Some cb \<Rightarrow>
             (case Allow cb of
                (after, Some err) \<Rightarrow> Some (Returns (Some (denied err)), log BreakerAllow s)
              | (after, None) \<Rightarrow>
                  (case doRequest e fuel verb reqURL bdy reqOpt (log BreakerAllow s) of
                     None \<Rightarrow> None
                   | Some (Panics, s') \<Rightarrow> Some (Panics, s')
                   | Some (Returns result, s') \<Rightarrow>
                       if after then Some (callAfter result s')
                       else Some (Returns result, s'))))"

section \<open>\<open>Concurrent\<close> and \<open>FutureResponse\<close>\<close>

text \<open>
  A \<open>*FutureResponse\<close> is the index of its cell in \<open>cells\<close>. A queued closure is the data
  it captured: its cell and the arguments of the call. The builder \<open>c.reqBuilder\<close> points
  to is the \<open>rb\<close> of the state.
\<close>

record future =
  fr :: nat
  fVerb :: string
  fURL :: string
  fBody :: "body option"
  fOpts :: "Option list"

record Concurrent =
  futures :: "future list"

definition FutureResponse_Response :: "state \<Rightarrow> nat \<Rightarrow> Response option" where
  \<comment> \<open>\<open>res, _ := fr.p.Load().(*Response)\<close>: nil while nothing is stored.\<close>
  "FutureResponse_Response s a =
     (if a < length (cells s) then (case cells s ! a of None \<Rightarrow> None | Some p \<Rightarrow> p) else None)"

definition Concurrent_DoRequest ::
  "Concurrent \<Rightarrow> string \<Rightarrow> string \<Rightarrow> body option \<Rightarrow> Option list \<Rightarrow> state \<Rightarrow> nat \<times> Concurrent \<times> state" where
  \<comment> \<open>A new cell, a new closure at the end of \<open>c.futures\<close>, and the address of the cell.\<close>
  "Concurrent_DoRequest c verb url bdy opts s =
     (let a = length (cells s)
      in (a,
          c\<lparr>futures := futures c @ [\<lparr>fr = a, fVerb = verb, fURL = url, fBody = bdy, fOpts = opts\<rparr>]\<rparr>,
          s\<lparr>cells := cells s @ [None]\<rparr>))"

definition run_future :: "env \<Rightarrow> nat \<Rightarrow> future \<Rightarrow> state \<Rightarrow> (bool \<times> state) option" where
  \<comment> \<open>Calling the closure: \<open>res := c.reqBuilder.DoRequest(...); fr.p.Store(res)\<close>. The flag
      is false when \<open>DoRequest\<close> panicked, so that nothing was stored.\<close>
  "run_future e fuel f s =
     (case DoRequest e fuel (fVerb f) (fURL f) (fBody f) (fOpts f) s of
        None \<Rightarrow> None
      | Some (Panics, s') \<Rightarrow> Some (False, s')
      | Some (Returns res, s') \<Rightarrow>
          Some (True, log (FutureStore (fr f)) (s'\<lparr>cells := (cells s')[fr f := Some res]\<rparr>)))"

definition Concurrent_Get :: "Concurrent \<Rightarrow> string \<Rightarrow> Option list \<Rightarrow> state \<Rightarrow> nat \<times> Concurrent \<times> state" where
  "Concurrent_Get c url opts s = Concurrent_DoRequest c ''GET'' url None opts s"

definition Concurrent_Post :: "Concurrent \<Rightarrow> string \<Rightarrow> body option \<Rightarrow> Option list \<Rightarrow> state \<Rightarrow> nat \<times> Concurrent \<times> state" where
  "Concurrent_Post c url bdy opts s = Concurrent_DoRequest c ''POST'' url bdy opts s"

definition Concurrent_Patch :: "Concurrent \<Rightarrow> string \<Rightarrow> body option \<Rightarrow> Option list \<Rightarrow> state \<Rightarrow> nat \<times> Concurrent \<times> state" where
  "Concurrent_Patch c url bdy opts s = Concurrent_DoRequest c ''PATCH'' url bdy opts s"

definition Concurrent_Put :: "Concurrent \<Rightarrow> string \<Rightarrow> body option \<Rightarrow> Option list \<Rightarrow> state \<Rightarrow> nat \<times> Concurrent \<times> state" where
  "Concurrent_Put c url bdy opts s = Concurrent_DoRequest c ''PUT'' url bdy opts s"

definition Concurrent_Delete :: "Concurrent \<Rightarrow> string \<Rightarrow> Option list \<Rightarrow> state \<Rightarrow> nat \<times> Concurrent \<times> state" where
  "Concurrent_Delete c url opts s = Concurrent_DoRequest c ''DELETE'' url None opts s"

definition Concurrent_Head :: "Concurrent \<Rightarrow> string \<Rightarrow> Option list \<Rightarrow> state \<Rightarrow> nat \<times> Concurrent \<times> state" where
  "Concurrent_Head c url opts s = Concurrent_DoRequest c ''HEAD'' url None opts s"

definition Concurrent_Options :: "Concurrent \<Rightarrow> string \<Rightarrow> Option list \<Rightarrow> state \<Rightarrow> nat \<times> Concurrent \<times> state" where
  "Concurrent_Options c url opts s = Concurrent_DoRequest c ''OPTIONS'' url None opts s"

section \<open>What the retry loop may touch\<close>

definition loopEvent :: "event \<Rightarrow> bool" where
  \<comment> \<open>the calls the retry loop makes to its collaborators\<close>
  "loopEvent ev = (case ev of
       NetCall r \<Rightarrow> True | ApiCallMetric t l b \<Rightarrow> True | SimpleMetric n ts \<Rightarrow> True
     | InsightsEvent p \<Rightarrow> True | DrainBody \<Rightarrow> True | Sleep d \<Rightarrow> True | LimiterAction \<Rightarrow> True
     | _ \<Rightarrow> False)"

definition clientPart :: "RequestBuilder \<Rightarrow> http_client option \<times> bool \<times> CustomPool option" where
  \<comment> \<open>the fields \<open>clientMtxOnce.Do\<close> writes\<close>
  "clientPart b = (Client b, clientMtxOnce b, CustomPool b)"

definition clientStep :: "env \<Rightarrow> RequestBuilder \<Rightarrow> RequestBuilder \<Rightarrow> bool" where
  \<comment> \<open>from \<open>b\<close> to \<open>b'\<close> the client, its \<open>Once\<close> and the pool are the same, or the
      \<open>Once\<close> had not run and they are what building the client makes them\<close>
  "clientStep e b b' =
     (clientPart b' = clientPart b
      \<or> clientMtxOnce b = False \<and> clientPart b' = clientPart (buildClient e b))"

definition loopFrame :: "env \<Rightarrow> state \<Rightarrow> state \<Rightarrow> bool" where
  \<comment> \<open>from \<open>s\<close> to \<open>s'\<close> the cache and the future cells are the same; the builder differs
      at most in its pool name, which changes only from empty to the caller's file, and
      in its client, which changes only by being built; the trace grew by loop events\<close>
  "loopFrame e s s' = (cache s' = cache s \<and> cells s' = cells s
     \<and> rb s' = (rb s)\<lparr>poolName := poolName (rb s'), Client := Client (rb s'),
        clientMtxOnce := clientMtxOnce (rb s'), CustomPool := CustomPool (rb s')\<rparr>
     \<and> (poolName (rb s') = poolName (rb s)
          \<or> poolName (rb s) = [] \<and> poolName (rb s') = callerFile e)
     \<and> clientStep e (rb s) (rb s')
     \<and> (\<exists>evs. trace s' = trace s @ evs \<and> list_all loopEvent evs))"

section \<open>What a request may touch\<close>

definition engineEvent :: "event \<Rightarrow> bool" where
  \<comment> \<open>the calls \<open>doRequest\<close> makes: those of the loop and those to the cache\<close>
  "engineEvent ev = (case ev of CacheGet u \<Rightarrow> True | CacheSetNX u \<Rightarrow> True | _ \<Rightarrow> loopEvent ev)"

definition isNetCall :: "event \<Rightarrow> bool" where
  "isNetCall ev = (case ev of NetCall r \<Rightarrow> True | _ \<Rightarrow> False)"

definition isBreakerAfter :: "event \<Rightarrow> bool" where
  "isBreakerAfter ev = (case ev of BreakerAfter b \<Rightarrow> True | _ \<Rightarrow> False)"

definition noConditional :: "header \<Rightarrow> header" where
  \<comment> \<open>the headers without the two conditional ones\<close>
  "noConditional h = hDel (hDel h ''If-None-Match'') ''If-Modified-Since''"

definition requestFrame :: "env \<Rightarrow> state \<Rightarrow> state \<Rightarrow> bool" where
  \<comment> \<open>from \<open>s\<close> to \<open>s'\<close> the future cells are the same; the builder differs at most in
      its headers, which can only lose the two conditional headers and only when caching
      is off, in its pool name, which changes only from empty to the caller's file, and
      in its client, which changes only by being built; the trace grew by engine events\<close>
  "requestFrame e s s' = (cells s' = cells s
     \<and> rb s' = (rb s)\<lparr>Headers := Headers (rb s'), poolName := poolName (rb s'),
                      Client := Client (rb s'),
        clientMtxOnce := clientMtxOnce (rb s'), CustomPool := CustomPool (rb s')\<rparr>
     \<and> (Headers (rb s') = Headers (rb s)
          \<or> \<not> EnableCache (rb s) \<and> Headers (rb s') = noConditional (Headers (rb s)))
     \<and> (poolName (rb s') = poolName (rb s)
          \<or> poolName (rb s) = [] \<and> poolName (rb s') = callerFile e)
     \<and> clientStep e (rb s) (rb s')
     \<and> (\<exists>evs. trace s' = trace s @ evs \<and> list_all engineEvent evs))"

definition localFailure :: "env \<Rightarrow> string \<Rightarrow> string \<Rightarrow> RequestBuilder \<Rightarrow> body option \<Rightarrow> error option" where
  \<comment> \<open>The failures of \<open>doRequest\<close> that precede the first network attempt, in the order
      the code meets them: marshalling the body, \<open>checkMockup\<close>, \<open>http.NewRequest\<close>.\<close>
  "localFailure e verb reqURL b bdy =
     (case marshalReqBody e b bdy of
        Inl err \<Rightarrow> Some err
      | Inr bs \<Rightarrow>
          (case checkMockup e reqURL of
             (u, cacheURL, Some err) \<Rightarrow> Some err
           | (u, cacheURL, None) \<Rightarrow> newRequestErr e verb u))"

definition directEvent :: "event \<Rightarrow> bool" where
  \<comment> \<open>neither a call to the retry limiter nor the retry-break metric\<close>
  "directEvent ev = (case ev of LimiterAction \<Rightarrow> False
     | SimpleMetric n ts \<Rightarrow> n \<noteq> ''go.api_call.retry_break'' | _ \<Rightarrow> True)"

definition control :: "event list \<Rightarrow> event list" where
  \<comment> \<open>a trace without its network calls\<close>
  "control evs = filter (\<lambda>ev. \<not> isNetCall ev) evs"

definition callEvent :: "event \<Rightarrow> bool" where
  \<comment> \<open>the calls \<open>DoRequest\<close> makes: any but a store into a future\<close>
  "callEvent ev = (case ev of FutureStore a \<Rightarrow> False | _ \<Rightarrow> True)"

definition cacheInv :: "state \<Rightarrow> bool" where
  \<comment> \<open>every cached Response has its embedded response\<close>
  "cacheInv s = (\<forall>u r. cache s u = Some r \<longrightarrow> http r \<noteq> None)"

section \<open>Sample inputs\<close>

text \<open>
  Concrete values on which the functions above are evaluated: a date parser that knows
  one date (Monday 1 January 2035, midnight GMT) under the layout of the package and
  rejects every other string (as \<open>time.Parse\<close> does under that layout with the date
  \<open>Wed, 21 Oct 2035 07:28:00 GMT\<close>, whose second field is no month), an environment whose network answers
  every attempt with \<open>200\<close> and body \<open>ok\<close>, a builder and an empty state.
\<close>

definition parse0 :: "string \<Rightarrow> string \<Rightarrow> time option" where
  "parse0 layout x =
     (if layout = ''Mon, 01 Jan 2006 15:04:05 GMT'' \<and> x = ''Mon, 01 Jan 2035 00:00:00 GMT''
      then Some 2051222400000000000 else None)"

definition ok200 :: http_response where
  "ok200 = \<lparr>StatusCode = 200, Header = [], Body = Inr ''ok''\<rparr>"

definition env0 :: env where
  "env0 = \<lparr>now = 1000, parseTime = parse0, formatTime = (\<lambda>l t. ''date''),
     jsonMarshal = (\<lambda>b. Inr ''{}''), xmlMarshal = (\<lambda>b. Inr ''<a/>''),
     fmtBody = (\<lambda>b. ''string(x)''), mockUp = None, newRequestErr = (\<lambda>v u. None),
     transport = (\<lambda>k r. Inr ok200), limiterAdmits = (\<lambda>k. False),
     callerFile = ''pool_main'', gunzip = (\<lambda>b. GzHeaderErr ''gzip: invalid header''),
     millisString = (\<lambda>d. ''500''), basicAuthValue = (\<lambda>u p. ''Basic dTpw''),
     DefaultTimeout = 500000000, DefaultConnectTimeout = 1500000000,
     DefaultMaxIdleConnsPerHost = 2, proxyParses = (\<lambda>u. True)\<rparr>"

definition rb0 :: RequestBuilder where
  "rb0 = \<lparr>BaseURL = ''http://api'', ContentType = JSON, Headers = [], Timeout = 0,
     ConnectTimeout = 0, DisableTimeout = False, FollowRedirect = False, EnableCache = False,
     UncompressResponse = False, BasicAuth = None, UserAgent = [], poolName = ''p'',
     MetricsConfig = \<lparr>TargetId = ''t'', DisableApiCallMetrics = True,
       DisableHttpConnectionsMetrics = True\<rparr>,
     RetryStrategy = None, circuitBreaker = None, Client = None, clientMtxOnce = False,
     CustomPool = None\<rparr>"

definition state0 :: state where
  "state0 = \<lparr>rb = rb0, cache = Map.empty, poolMap = [], cells = [], trace = []\<rparr>"


definition open_breaker :: CircuitBreaker where
  "open_breaker = \<lparr>Allow = (False, Some ''circuit breaker is open'')\<rparr>"

definition closed_breaker :: CircuitBreaker where
  "closed_breaker = \<lparr>Allow = (True, None)\<rparr>"

definition with_rb :: "(RequestBuilder \<Rightarrow> RequestBuilder) \<Rightarrow> state \<Rightarrow> state" where
  \<comment> \<open>the state with its builder configured differently\<close>
  "with_rb f s = s\<lparr>rb := f (rb s)\<rparr>"

definition cond_state :: state where
  \<comment> \<open>caching off, a conditional header among the builder's headers, no pool name\<close>
  "cond_state = with_rb (\<lambda>b. b\<lparr>Headers := [(''If-None-Match'', [''v1'']), (''X-Api-Key'', [''k''])],
      poolName := []\<rparr>) state0"

definition preset_state :: state where
  \<comment> \<open>the caller has set a client of their own and a pool with a transport, before
      the first call\<close>
  "preset_state = with_rb (\<lambda>b. b\<lparr>Client := Some \<lparr>clientTransport = Some (OtherRoundTripper ''stub''),
        clientTimeout = 1, avoidRedirect = False\<rparr>,
      CustomPool := Some \<lparr>MaxIdleConnsPerHost = 10, Proxy = ''http://proxy:3128'',
        Transport = Some (HttpTransport \<lparr>tMaxIdleConnsPerHost = 5, tProxy = ProxyFromEnvironment,
           tDialTimeout = 7, tResponseHeaderTimeout = 9\<rparr>), once = False\<rparr>\<rparr>) state0"

definition nil_client_state :: state where
  \<comment> \<open>the client has been built, and the caller has set \<open>rb.Client\<close> to nil since\<close>
  "nil_client_state = with_rb (\<lambda>b. b\<lparr>Client := None, clientMtxOnce := True\<rparr>) state0"

definition breaker_state :: state where
  "breaker_state = with_rb (\<lambda>b. b\<lparr>circuitBreaker := Some closed_breaker\<rparr>) state0"

definition bytes_state :: state where
  "bytes_state = with_rb (\<lambda>b. b\<lparr>ContentType := BYTES, circuitBreaker := Some closed_breaker\<rparr>) state0"

definition not_modified :: http_response where
  "not_modified = \<lparr>StatusCode = 304, Header = [], Body = Inr []\<rparr>"

definition env304 :: env where
  \<comment> \<open>the network answers \<open>304 Not Modified\<close>\<close>
  "env304 = env0\<lparr>transport := (\<lambda>k r. Inr not_modified)\<rparr>"

definition fresh_v2 :: http_response where
  "fresh_v2 = \<lparr>StatusCode = 200, Header = [(''Etag'', [''v2''])], Body = Inr ''new''\<rparr>"

definition env_v2 :: env where
  \<comment> \<open>the network answers \<open>200\<close> with a new entity tag and a new body\<close>
  "env_v2 = env0\<lparr>transport := (\<lambda>k r. Inr fresh_v2)\<rparr>"

definition cached_v1 :: Response where
  \<comment> \<open>a cached Response without TTL, kept for revalidation by its entity tag\<close>
  "cached_v1 = \<lparr>http = Some \<lparr>StatusCode = 200, Header = [(''Etag'', [''v1''])], Body = Inr ''old''\<rparr>,
     Err = None, byteBody = ''old'', ttl = None, lastModified = None, etag = ''v1'',
     revalidate = True, cacheHit = False\<rparr>"

definition caching_state :: state where
  \<comment> \<open>caching on, nothing cached\<close>
  "caching_state = with_rb (\<lambda>b. b\<lparr>EnableCache := True\<rparr>) state0"

definition stale_state :: state where
  \<comment> \<open>caching on, \<open>cached_v1\<close> cached for \<open>http://api/items\<close>\<close>
  "stale_state = caching_state\<lparr>cache := [''http://api/items'' \<mapsto> cached_v1]\<rparr>"

definition stale_breaker_state :: state where
  "stale_breaker_state = with_rb (\<lambda>b. b\<lparr>circuitBreaker := Some closed_breaker\<rparr>) stale_state"

definition miss_state :: state where
  \<comment> \<open>caching on, nothing cached, and a conditional header of the caller's own\<close>
  "miss_state = with_rb (\<lambda>b. b\<lparr>Headers := [(''If-None-Match'', [''v1''])]\<rparr>) caching_state"

definition miss_breaker_state :: state where
  \<comment> \<open>as \<open>miss_state\<close>, with a breaker that admits every call\<close>
  "miss_breaker_state = with_rb (\<lambda>b. b\<lparr>circuitBreaker := Some closed_breaker\<rparr>) miss_state"

definition conc0 :: Concurrent where
  "conc0 = \<lparr>futures = []\<rparr>"

definition retry_first :: RetryStrategy where
  \<comment> \<open>a strategy that asks for one retry, after a millisecond\<close>
  "retry_first = (\<lambda>rq res k. (k = 0, 1000000))"

definition retry_state :: state where
  "retry_state = with_rb (\<lambda>b. b\<lparr>RetryStrategy := Some retry_first\<rparr>) state0"

definition retry_breaker_state :: state where
  "retry_breaker_state = with_rb (\<lambda>b. b\<lparr>circuitBreaker := Some closed_breaker\<rparr>) retry_state"

definition retry_metrics_state :: state where
  "retry_metrics_state = with_rb (\<lambda>b. b\<lparr>MetricsConfig := \<lparr>TargetId = ''t'',
      DisableApiCallMetrics = False, DisableHttpConnectionsMetrics = True\<rparr>\<rparr>) retry_state"

definition env_admit :: env where
  \<comment> \<open>the limiter admits every retry\<close>
  "env_admit = env0\<lparr>limiterAdmits := (\<lambda>k. True)\<rparr>"

section \<open>Cache-Control and Expires\<close>





section \<open>The frame of the retry loop\<close>

lemma buildClient_once: "clientMtxOnce (buildClient e b)"
  by (simp add: buildClient_def split: prod.splits)

lemma buildClient_cong:
  assumes "Timeout b' = Timeout b" "ConnectTimeout b' = ConnectTimeout b"
    "DisableTimeout b' = DisableTimeout b" "FollowRedirect b' = FollowRedirect b"
    "CustomPool b' = CustomPool b"
  shows "clientPart (buildClient e b') = clientPart (buildClient e b)"
proof -
  have t: "getRequestTimeout e b' = getRequestTimeout e b"
      "getConnectionTimeout e b' = getConnectionTimeout e b"
    using assms by (simp_all add: getRequestTimeout_def getConnectionTimeout_def)
  have m: "makeTransport e b' = makeTransport e b"
    using assms t by (simp add: makeTransport_def getMaxIdleConnsPerHost_def getProxy_def)
  have g: "getTransport e b' = getTransport e b"
    unfolding getTransport_def assms(5) t m by (rule refl)
  show ?thesis
    using assms t g by (simp add: clientPart_def buildClient_def split: prod.splits)
qed

lemma clientStep_refl: "clientStep e b b"
  by (simp add: clientStep_def)

lemma clientStep_trans:
  assumes "clientStep e b b1" "clientStep e b1 b2"
    "Timeout b1 = Timeout b" "ConnectTimeout b1 = ConnectTimeout b"
    "DisableTimeout b1 = DisableTimeout b" "FollowRedirect b1 = FollowRedirect b"
  shows "clientStep e b b2"
proof (cases "clientPart b1 = clientPart b")
  case True
  then have cp: "CustomPool b1 = CustomPool b" and o: "clientMtxOnce b1 = clientMtxOnce b"
    by (simp_all add: clientPart_def)
  have "clientPart (buildClient e b1) = clientPart (buildClient e b)"
    using assms(3-6) cp by (rule buildClient_cong)
  then show ?thesis using assms(2) True o unfolding clientStep_def by auto
next
  case False
  then have b: "clientMtxOnce b = False" "clientPart b1 = clientPart (buildClient e b)"
    using assms(1) unfolding clientStep_def by auto
  have "clientMtxOnce b1" using b(2) buildClient_once[of e b] by (simp add: clientPart_def)
  then have "clientPart b2 = clientPart b1" using assms(2) unfolding clientStep_def by auto
  then show ?thesis using b unfolding clientStep_def by simp
qed

lemma loopFrame_refl: "loopFrame e s s"
  by (simp add: loopFrame_def clientStep_refl)

lemma loopFrame_trans:
  assumes "loopFrame e s s1" "loopFrame e s1 s2"
  shows "loopFrame e s s2"
proof -
  obtain e1 e2 where ev: "trace s1 = trace s @ e1" "list_all loopEvent e1"
      "trace s2 = trace s1 @ e2" "list_all loopEvent e2"
    using assms unfolding loopFrame_def by blast
  have r1: "rb s1 = (rb s)\<lparr>poolName := poolName (rb s1), Client := Client (rb s1),
        clientMtxOnce := clientMtxOnce (rb s1), CustomPool := CustomPool (rb s1)\<rparr>"
    and r2: "rb s2 = (rb s1)\<lparr>poolName := poolName (rb s2), Client := Client (rb s2),
        clientMtxOnce := clientMtxOnce (rb s2), CustomPool := CustomPool (rb s2)\<rparr>"
    using assms unfolding loopFrame_def by blast+
  have "rb s2 = (rb s)\<lparr>poolName := poolName (rb s2), Client := Client (rb s2),
        clientMtxOnce := clientMtxOnce (rb s2), CustomPool := CustomPool (rb s2)\<rparr>"
    by (subst r2, subst r1) simp
  moreover have "trace s2 = trace s @ (e1 @ e2)" "list_all loopEvent (e1 @ e2)"
    using ev by simp_all
  moreover have "cache s2 = cache s" "cells s2 = cells s"
    using assms unfolding loopFrame_def by simp_all
  moreover have "poolName (rb s2) = poolName (rb s)
          \<or> poolName (rb s) = [] \<and> poolName (rb s2) = callerFile e"
    using assms unfolding loopFrame_def by auto
  moreover have "clientStep e (rb s) (rb s2)"
  proof (rule clientStep_trans)
    show "clientStep e (rb s) (rb s1)" "clientStep e (rb s1) (rb s2)"
      using assms unfolding loopFrame_def by simp_all
    show "Timeout (rb s1) = Timeout (rb s)" by (subst r1) simp
    show "ConnectTimeout (rb s1) = ConnectTimeout (rb s)" by (subst r1) simp
    show "DisableTimeout (rb s1) = DisableTimeout (rb s)" by (subst r1) simp
    show "FollowRedirect (rb s1) = FollowRedirect (rb s)" by (subst r1) simp
  qed
  ultimately show ?thesis unfolding loopFrame_def by blast
qed

lemma loopFrame_log: "loopEvent ev \<Longrightarrow> loopFrame e s (log ev s)"
  by (simp add: loopFrame_def log_def clientStep_refl)

lemma forward_fold: "\<exists>evs. snd (foldl (forwardStep fwd) acc kvs) = snd acc @ evs \<and> list_all loopEvent evs"
proof (induction kvs arbitrary: acc)
  case Nil
  then show ?case by simp
next
  case (Cons kv kvs)
  obtain evs where e: "snd (foldl (forwardStep fwd) (forwardStep fwd acc kv) kvs) = snd (forwardStep fwd acc kv) @ evs" "list_all loopEvent evs"
    using Cons.IH by blast
  have "\<exists>e1. snd (forwardStep fwd acc kv) = snd acc @ e1 \<and> list_all loopEvent e1"
    by (simp add: forwardStep_def Let_def loopEvent_def)
  then show ?case using e by auto
qed

lemma forward_fold_nil: "list_all loopEvent (snd (foldl (forwardStep fwd) (h, []) kvs))"
  using forward_fold[of fwd "(h, [])" kvs] by auto

lemma loopFrame_getClient: "loopFrame e s (getClient e s)"
proof (cases "clientMtxOnce (rb s)")
  case True
  then show ?thesis by (simp add: getClient_def loopFrame_refl)
next
  case False
  have "buildClient e (rb s) = (rb s)\<lparr>poolName := poolName (buildClient e (rb s)),
          Client := Client (buildClient e (rb s)),
          clientMtxOnce := clientMtxOnce (buildClient e (rb s)),
          CustomPool := CustomPool (buildClient e (rb s))\<rparr>"
    by (simp add: buildClient_def split: prod.splits)
  moreover have "poolName (buildClient e (rb s)) = poolName (rb s)"
    by (simp add: buildClient_def split: prod.splits)
  ultimately show ?thesis using False
    by (simp add: loopFrame_def getClient_def clientStep_def)
qed

lemma loopFrame_namePool: "loopFrame e s (namePool e s)"
  by (simp add: loopFrame_def namePool_def sendRestMetrics_def log_def loopEvent_def
        clientStep_def clientPart_def)

lemma loopFrame_trace: "list_all loopEvent evs \<Longrightarrow> loopFrame e s (s\<lparr>trace := trace s @ evs\<rparr>)"
  by (simp add: loopFrame_def clientStep_refl)

lemma attempt_frame:
  assumes "attempt e verb u b cr cu opt k s = Inr (rq, res, s')"
  shows "loopFrame e s s'"
proof -
  define s1 where "s1 = namePool e s"
  define r1 where "r1 = setParams e (rb s) \<lparr>Method = verb, URL = u, reqBody = b, reqHeader = []\<rparr> cr cu"
  define fw where "fw = foldl (forwardStep (optForwarded opt))
     (addOptHeaders (hSet (hSet (reqHeader r1) ''X-Socket-Timeout''
                       (millisString e (getRequestTimeout e (rb s1))))
                 ''X-Rest-Pool-Name'' (poolName (rb s1))) (optHeaders opt), []) (optForwarded opt)"
  define s2 where "s2 = s1\<lparr>trace := trace s1 @ snd fw\<rparr>"
  define s3 where "s3 = log (NetCall (r1\<lparr>reqHeader := fst fw\<rparr>)) (getClient e s2)"
  have s': "s' = (if DisableApiCallMetrics (MetricsConfig (rb s3)) then s3
                else log (ApiCallMetric (TargetId (MetricsConfig (rb s3)))
                       (case transport e k (r1\<lparr>reqHeader := fst fw\<rparr>) of Inl err \<Rightarrow> None | Inr hr \<Rightarrow> Some (StatusCode hr))
                       (k > 0)) s3)"
    using assms unfolding attempt_def Let_def s3_def s2_def fw_def r1_def s1_def
    by (auto split: if_splits)
  have "list_all loopEvent (snd fw)"
    unfolding fw_def by (rule forward_fold_nil)
  then have a: "loopFrame e s1 s2" unfolding s2_def by (rule loopFrame_trace)
  have b: "loopFrame e s s1" unfolding s1_def by (rule loopFrame_namePool)
  have c: "loopFrame e s2 s3" unfolding s3_def
    by (rule loopFrame_trans[OF loopFrame_getClient loopFrame_log]) (simp add: loopEvent_def)
  have d: "loopFrame e s3 s'" unfolding s'
    by (auto simp: loopFrame_refl loopEvent_def intro: loopFrame_log)
  show ?thesis using loopFrame_trans[OF loopFrame_trans[OF loopFrame_trans[OF b a] c] d] .
qed

lemma attempt_panic_frame:
  assumes "attempt e verb u b cr cu opt k s = Inl s'"
  shows "loopFrame e s s'"
proof -
  define s1 where "s1 = namePool e s"
  define r1 where "r1 = setParams e (rb s) \<lparr>Method = verb, URL = u, reqBody = b, reqHeader = []\<rparr> cr cu"
  define fw where "fw = foldl (forwardStep (optForwarded opt))
     (addOptHeaders (hSet (hSet (reqHeader r1) ''X-Socket-Timeout''
                       (millisString e (getRequestTimeout e (rb s1))))
                 ''X-Rest-Pool-Name'' (poolName (rb s1))) (optHeaders opt), []) (optForwarded opt)"
  define s2 where "s2 = s1\<lparr>trace := trace s1 @ snd fw\<rparr>"
  have s': "s' = getClient e s2"
    using assms unfolding attempt_def Let_def s2_def fw_def r1_def s1_def
    by (auto split: if_splits)
  have "list_all loopEvent (snd fw)"
    unfolding fw_def by (rule forward_fold_nil)
  then have a: "loopFrame e s1 s2" unfolding s2_def by (rule loopFrame_trace)
  have b: "loopFrame e s s1" unfolding s1_def by (rule loopFrame_namePool)
  have c: "loopFrame e s2 s'" unfolding s' by (rule loopFrame_getClient)
  show ?thesis using loopFrame_trans[OF loopFrame_trans[OF b a] c] .
qed

text \<open>
  An attempt panics exactly on a builder whose \<open>clientMtxOnce\<close> has run and whose client
  is nil.
\<close>

lemma attempt_panics_iff:
  "(\<exists>s'. attempt e verb u b cr cu opt k s = Inl s')
     = (clientMtxOnce (rb s) \<and> Client (rb s) = None)"
proof -
  define s1 where "s1 = namePool e s"
  define r1 where "r1 = setParams e (rb s) \<lparr>Method = verb, URL = u, reqBody = b, reqHeader = []\<rparr> cr cu"
  define fw where "fw = foldl (forwardStep (optForwarded opt))
     (addOptHeaders (hSet (hSet (reqHeader r1) ''X-Socket-Timeout''
                       (millisString e (getRequestTimeout e (rb s1))))
                 ''X-Rest-Pool-Name'' (poolName (rb s1))) (optHeaders opt), []) (optForwarded opt)"
  define s2 where "s2 = s1\<lparr>trace := trace s1 @ snd fw\<rparr>"
  have p: "(\<exists>s'. attempt e verb u b cr cu opt k s = Inl s') = (Client (rb (getClient e s2)) = None)"
    unfolding attempt_def Let_def s2_def fw_def r1_def s1_def by auto
  have c: "Client (rb s2) = Client (rb s)" "clientMtxOnce (rb s2) = clientMtxOnce (rb s)"
    by (simp_all add: s2_def s1_def namePool_def sendRestMetrics_def log_def)
  have "(Client (rb (getClient e s2)) = None) = (clientMtxOnce (rb s2) \<and> Client (rb s2) = None)"
    by (simp add: getClient_def buildClient_def split: prod.splits)
  then show ?thesis using p c by simp
qed

lemma loopFrame_retryFunc: "loopFrame e s (retryFunc res d s)"
proof (cases res)
  case (Inl err)
  then show ?thesis
    by (simp add: retryFunc_def loopFrame_log loopEvent_def)
next
  case (Inr hr)
  have a: "loopFrame e s (log DrainBody s)" by (rule loopFrame_log) (simp add: loopEvent_def)
  have b: "loopFrame e (log DrainBody s) (log (Sleep d) (log DrainBody s))"
    by (rule loopFrame_log) (simp add: loopEvent_def)
  have "retryFunc res d s = log (Sleep d) (log DrainBody s)"
    using Inr by (simp add: retryFunc_def)
  then show ?thesis using loopFrame_trans[OF a b] by simp
qed

lemma loopFrame_retryBreak: "loopFrame e s (retryBreak s)"
proof (cases "DisableApiCallMetrics (MetricsConfig (rb s))")
  case True
  then show ?thesis by (simp add: retryBreak_def loopFrame_refl)
next
  case False
  then have "retryBreak s = log (SimpleMetric ''go.api_call.retry_break''
             [''target_id:'' @ TargetId (MetricsConfig (rb s))]) s"
    by (simp add: retryBreak_def)
  moreover have "loopFrame e s (log (SimpleMetric ''go.api_call.retry_break''
             [''target_id:'' @ TargetId (MetricsConfig (rb s))]) s)"
    by (rule loopFrame_log) (simp add: loopEvent_def)
  ultimately show ?thesis by simp
qed


lemma retryLoop_frame:
  "retryLoop e fuel verb u b cr cu opt k s = Some (lr, s') \<Longrightarrow> loopFrame e s s'"
proof (induction fuel arbitrary: k s)
  case 0
  then show ?case by simp
next
  case (Suc fuel)
  show ?case
  proof (cases "newRequestErr e verb u")
    case (Some err)
    with Suc.prems show ?thesis by (simp add: loopFrame_refl)
  next
    case None
    show ?thesis
    proof (cases "attempt e verb u b cr cu opt k s")
      case (Inl sp)
      with Suc.prems None have "s' = sp" by simp
      then show ?thesis using attempt_panic_frame[OF Inl] by simp
    next
      case (Inr t)
      then obtain rq res s1 where at: "attempt e verb u b cr cu opt k s = Inr (rq, res, s1)"
        by (cases t) auto
      have f1: "loopFrame e s s1" using at by (rule attempt_frame)
      show ?thesis
      proof (cases "RetryStrategy (rb s1)")
        case None': None
        from Suc.prems have "s' = s1" by (simp add: None at None')
        then show ?thesis using f1 by simp
      next
        case (Some sr)
        obtain retry delay where sr: "sr rq res k = (retry, delay)" by (cases "sr rq res k") auto
        show ?thesis
        proof (cases retry)
          case False
          from Suc.prems have "s' = s1" by (simp add: None at Some sr False)
          then show ?thesis using f1 by simp
        next
          case True
          note retry = True
          show ?thesis
          proof (cases "circuitBreaker (rb s1) \<noteq> None")
            case True
            from Suc.prems
            have "retryLoop e fuel verb u b cr cu opt (Suc k) (retryFunc res delay s1) = Some (lr, s')"
              using True by (simp add: None at Some sr retry)
            from Suc.IH[OF this] show ?thesis
              by (rule loopFrame_trans[OF loopFrame_trans[OF f1 loopFrame_retryFunc]])
          next
            case False
            note nobr = False
            have f2: "loopFrame e s1 (log LimiterAction s1)"
              by (rule loopFrame_log) (simp add: loopEvent_def)
            show ?thesis
            proof (cases "limiterAdmits e k")
              case True
              from Suc.prems
              have "retryLoop e fuel verb u b cr cu opt (Suc k) (retryFunc res delay (log LimiterAction s1)) = Some (lr, s')"
                using nobr True by (simp add: None at Some sr retry limiterAction_def)
              from Suc.IH[OF this] show ?thesis
                by (rule loopFrame_trans[OF loopFrame_trans[OF loopFrame_trans[OF f1 f2] loopFrame_retryFunc]])
            next
              case False
              from Suc.prems
              have "s' = retryBreak (log LimiterAction s1)"
                using nobr False by (simp add: None at Some sr retry limiterAction_def)
              then show ?thesis
                using loopFrame_trans[OF loopFrame_trans[OF f1 f2] loopFrame_retryBreak] by simp
            qed
          qed
        qed
      qed
    qed
  qed
qed

section \<open>The frame of a request\<close>

lemma cacheLookup_frame:
  assumes "cacheLookup e verb u s = (cr, s1)"
  shows "rb s1 = rb s \<and> cells s1 = cells s
       \<and> (\<exists>evs. trace s1 = trace s @ evs \<and> list_all engineEvent evs)"
  using assms
  by (auto simp: cacheLookup_def cache_get_def log_def Let_def engineEvent_def
      split: if_splits option.splits)

lemma dropConditional_cached: "EnableCache (rb s) \<Longrightarrow> dropConditional s = s"
  by (simp add: dropConditional_def)

lemma cacheLookup_rb: "cacheLookup e verb u s = (cr, s1) \<Longrightarrow> rb s1 = rb s"
  using cacheLookup_frame by blast

lemma respond_frame:
  assumes "respond e verb cu cr hr s = (out, s')"
  shows "rb s' = rb s \<and> cells s' = cells s
       \<and> (\<exists>evs. trace s' = trace s @ evs \<and> list_all engineEvent evs)"
  using assms
  by (auto simp: respond_def cache_setNX_def log_def Let_def engineEvent_def
      split: if_splits option.splits sum.splits prod.splits)


lemma engine_of_loop: "list_all loopEvent evs \<Longrightarrow> list_all engineEvent evs"
  by (induction evs) (auto simp: engineEvent_def loopEvent_def split: event.splits)

lemma noConditional_idem: "noConditional (noConditional h) = noConditional h"
  by (simp add: noConditional_def hDel_def delete_idem delete_twist)

lemma requestFrame_refl: "requestFrame e s s"
  by (simp add: requestFrame_def clientStep_refl)

lemma requestFrame_trans:
  assumes "requestFrame e s s1" "requestFrame e s1 s2"
  shows "requestFrame e s s2"
proof -
  obtain e1 e2 where ev: "trace s1 = trace s @ e1" "list_all engineEvent e1"
      "trace s2 = trace s1 @ e2" "list_all engineEvent e2"
    using assms unfolding requestFrame_def by blast
  have r1: "rb s1 = (rb s)\<lparr>Headers := Headers (rb s1), poolName := poolName (rb s1),
                       Client := Client (rb s1),
        clientMtxOnce := clientMtxOnce (rb s1), CustomPool := CustomPool (rb s1)\<rparr>"
    and r2: "rb s2 = (rb s1)\<lparr>Headers := Headers (rb s2), poolName := poolName (rb s2),
                       Client := Client (rb s2),
        clientMtxOnce := clientMtxOnce (rb s2), CustomPool := CustomPool (rb s2)\<rparr>"
    using assms unfolding requestFrame_def by blast+
  have ec: "EnableCache (rb s1) = EnableCache (rb s)" by (subst r1) simp
  have "rb s2 = (rb s)\<lparr>Headers := Headers (rb s2), poolName := poolName (rb s2),
                       Client := Client (rb s2),
        clientMtxOnce := clientMtxOnce (rb s2), CustomPool := CustomPool (rb s2)\<rparr>"
    by (subst r2, subst r1) simp
  moreover have "trace s2 = trace s @ (e1 @ e2)" "list_all engineEvent (e1 @ e2)"
    using ev by simp_all
  moreover have "cells s2 = cells s"
    using assms unfolding requestFrame_def by simp
  moreover have "Headers (rb s2) = Headers (rb s)
          \<or> \<not> EnableCache (rb s) \<and> Headers (rb s2) = noConditional (Headers (rb s))"
    using assms ec unfolding requestFrame_def by (auto simp: noConditional_idem)
  moreover have "poolName (rb s2) = poolName (rb s)
          \<or> poolName (rb s) = [] \<and> poolName (rb s2) = callerFile e"
    using assms unfolding requestFrame_def by auto
  moreover have "clientStep e (rb s) (rb s2)"
  proof (rule clientStep_trans)
    show "clientStep e (rb s) (rb s1)" "clientStep e (rb s1) (rb s2)"
      using assms unfolding requestFrame_def by simp_all
    show "Timeout (rb s1) = Timeout (rb s)" by (subst r1) simp
    show "ConnectTimeout (rb s1) = ConnectTimeout (rb s)" by (subst r1) simp
    show "DisableTimeout (rb s1) = DisableTimeout (rb s)" by (subst r1) simp
    show "FollowRedirect (rb s1) = FollowRedirect (rb s)" by (subst r1) simp
  qed
  ultimately show ?thesis unfolding requestFrame_def by blast
qed

lemma requestFrame_of_loop:
  assumes "loopFrame e s s'"
  shows "requestFrame e s s'"
proof -
  have r: "rb s' = (rb s)\<lparr>poolName := poolName (rb s'), Client := Client (rb s'),
        clientMtxOnce := clientMtxOnce (rb s'), CustomPool := CustomPool (rb s')\<rparr>"
    using assms unfolding loopFrame_def by blast
  have h: "Headers (rb s') = Headers (rb s)" by (subst r) simp
  have "rb s' = (rb s)\<lparr>Headers := Headers (rb s'), poolName := poolName (rb s'),
                       Client := Client (rb s'),
        clientMtxOnce := clientMtxOnce (rb s'), CustomPool := CustomPool (rb s')\<rparr>"
    unfolding h by (subst r) simp
  then show ?thesis
    using assms h engine_of_loop unfolding loopFrame_def requestFrame_def by blast
qed

lemma requestFrame_dropConditional: "requestFrame e s (dropConditional s)"
  by (simp add: requestFrame_def dropConditional_def noConditional_def clientStep_def
        clientPart_def)

lemma requestFrame_same_rb:
  assumes "rb s' = rb s" "cells s' = cells s"
    "\<exists>evs. trace s' = trace s @ evs \<and> list_all engineEvent evs"
  shows "requestFrame e s s'"
  using assms by (simp add: requestFrame_def clientStep_refl)

lemma doRequest_frame:
  assumes "doRequest e fuel verb url bdy opt s = Some (out, s')"
  shows "requestFrame e s s'"
proof -
  obtain cr s1 where cl: "cacheLookup e verb (BaseURL (rb s) @ url) s = (cr, s1)"
    by (cases "cacheLookup e verb (BaseURL (rb s) @ url) s") auto
  have f1: "requestFrame e s s1"
    using cacheLookup_frame[OF cl] by (intro requestFrame_same_rb) auto
  show ?thesis
  proof (cases "case cr of Some c \<Rightarrow> \<not> revalidate c | None \<Rightarrow> False")
    case True
    with assms cl have "s' = s1" by (simp add: doRequest_def Let_def)
    then show ?thesis using f1 by simp
  next
    case False
    define s2 where "s2 = dropConditional s1"
    have f2: "requestFrame e s s2"
      unfolding s2_def by (rule requestFrame_trans[OF f1 requestFrame_dropConditional])
    show ?thesis
    proof (cases "marshalReqBody e (rb s2) bdy")
      case (Inl err)
      with assms cl False have "s' = s2" by (simp add: doRequest_def Let_def s2_def)
      then show ?thesis using f2 by simp
    next
      case (Inr b)
      obtain u cu eo where cm: "checkMockup e (BaseURL (rb s) @ url) = (u, cu, eo)"
        by (cases "checkMockup e (BaseURL (rb s) @ url)") auto
      show ?thesis
      proof (cases eo)
        case (Some err)
        with assms cl False Inr cm have "s' = s2" by (simp add: doRequest_def Let_def s2_def)
        then show ?thesis using f2 by simp
      next
        case None
        show ?thesis
        proof (cases "retryLoop e fuel verb u b cr cu opt 0 s2")
          case None': None
          with assms cl False Inr cm None show ?thesis by (simp add: doRequest_def Let_def s2_def)
        next
          case (Some p)
          obtain lr s3 where p: "p = (lr, s3)" by (cases p) auto
          have f3: "requestFrame e s s3"
            using requestFrame_trans[OF f2 requestFrame_of_loop[OF retryLoop_frame]] Some p by simp
          show ?thesis
          proof (cases lr)
            case (LoopErr err)
            with assms cl False Inr cm None Some p have "s' = s3"
              by (simp add: doRequest_def Let_def s2_def)
            then show ?thesis using f3 by simp
          next
            case LoopPanic
            with assms cl False Inr cm None Some p have "s' = s3"
              by (simp add: doRequest_def Let_def s2_def)
            then show ?thesis using f3 by simp
          next
            case (LoopDone res)
            show ?thesis
            proof (cases res)
              case (Inl err)
              with assms cl False Inr cm None Some p LoopDone have "s' = s3"
                by (simp add: doRequest_def Let_def s2_def)
              then show ?thesis using f3 by simp
            next
              case Inr': (Inr hr)
              with assms cl False Inr cm None Some p LoopDone
              have "respond e verb cu cr hr s3 = (out, s')"
                by (simp add: doRequest_def Let_def s2_def)
              from respond_frame[OF this] have "requestFrame e s3 s'"
                by (intro requestFrame_same_rb) auto
              then show ?thesis using f3 requestFrame_trans by blast
            qed
          qed
        qed
      qed
    qed
  qed
qed

lemma doRequest_local_failure:
  assumes cl: "cacheLookup e verb (BaseURL (rb s) @ url) s = (cr, s1)"
    and nf: "\<forall>c. cr = Some c \<longrightarrow> revalidate c"
    and lf: "localFailure e verb (BaseURL (rb s) @ url) (rb (dropConditional s1)) bdy = Some err"
    and fuel: "0 < fuel"
  shows "doRequest e fuel verb url bdy opt s
           = Some (Returns (Some (failed err)), dropConditional s1)"
proof -
  have nf': "\<not> (case cr of Some c \<Rightarrow> \<not> revalidate c | None \<Rightarrow> False)"
    using nf by (cases cr) auto
  obtain fuel' where f: "fuel = Suc fuel'" using fuel by (cases fuel) auto
  show ?thesis
  proof (cases "marshalReqBody e (rb (dropConditional s1)) bdy")
    case (Inl err')
    with lf have "err' = err" by (simp add: localFailure_def)
    with Inl cl nf' show ?thesis by (simp add: doRequest_def Let_def)
  next
    case (Inr b)
    obtain u cu eo where cm: "checkMockup e (BaseURL (rb s) @ url) = (u, cu, eo)"
      by (cases "checkMockup e (BaseURL (rb s) @ url)") auto
    show ?thesis
    proof (cases eo)
      case (Some err')
      with lf Inr cm have "err' = err" by (simp add: localFailure_def)
      with Inr cl nf' cm Some show ?thesis by (simp add: doRequest_def Let_def)
    next
      case None
      with lf Inr cm have "newRequestErr e verb u = Some err" by (simp add: localFailure_def)
      with Inr cl nf' cm None f show ?thesis by (simp add: doRequest_def Let_def)
    qed
  qed
qed

lemma doRequest_network:
  assumes cl: "cacheLookup e verb (BaseURL (rb s) @ url) s = (cr, s1)"
    and nf: "\<forall>c. cr = Some c \<longrightarrow> revalidate c"
    and m: "marshalReqBody e (rb (dropConditional s1)) bdy = Inr b"
    and cm: "checkMockup e (BaseURL (rb s) @ url) = (u, cu, None)"
    and lp: "retryLoop e fuel verb u b cr cu opt 0 (dropConditional s1) = Some (LoopDone (Inr hr), s3)"
  shows "doRequest e fuel verb url bdy opt s = Some (respond e verb cu cr hr s3)"
proof -
  have nf': "\<not> (case cr of Some c \<Rightarrow> \<not> revalidate c | None \<Rightarrow> False)"
    using nf by (cases cr) auto
  show ?thesis using cl nf' m cm lp by (simp add: doRequest_def Let_def)
qed

lemma engine_not_after: "list_all engineEvent evs \<Longrightarrow> filter isBreakerAfter evs = []"
  by (induction evs) (auto simp: engineEvent_def loopEvent_def isBreakerAfter_def split: event.splits)

lemma DoRequest_frame:
  assumes "DoRequest e fuel verb url bdy opts s = Some (out, s')"
  shows "\<exists>s0 s1. requestFrame e s0 s1 \<and> rb s0 = rb s \<and> cells s0 = cells s
       \<and> rb s' = rb s1 \<and> cells s' = cells s1"
proof (cases "circuitBreaker (rb s)")
  case None
  with assms have "doRequest e fuel verb url bdy (foldl (\<lambda>ro opt. opt ro) zero_reqOptions opts) s
      = Some (out, s')"
    by (simp add: DoRequest_def Let_def)
  from doRequest_frame[OF this] show ?thesis by blast
next
  case (Some cb)
  let ?opt = "foldl (\<lambda>ro opt. opt ro) zero_reqOptions opts"
  obtain a eo where al: "Allow cb = (a, eo)" by (cases "Allow cb") auto
  show ?thesis
  proof (cases eo)
    case Some': (Some err)
    with assms Some al have "s' = log BreakerAllow s" by (simp add: DoRequest_def Let_def)
    then have "rb s' = rb s" "cells s' = cells s" by (simp_all add: log_def)
    then show ?thesis using requestFrame_refl[of e s] by metis
  next
    case None
    obtain o1 s1 where d: "doRequest e fuel verb url bdy ?opt (log BreakerAllow s) = Some (o1, s1)"
      using assms Some al None
      by (cases "doRequest e fuel verb url bdy ?opt (log BreakerAllow s)")
        (auto simp: DoRequest_def Let_def)
    have "rb s' = rb s1 \<and> cells s' = cells s1"
      using assms Some al None d
      by (auto simp: DoRequest_def Let_def callAfter_def log_def
          split: outcome.splits if_splits option.splits)
    moreover have "rb (log BreakerAllow s) = rb s" "cells (log BreakerAllow s) = cells s"
      by (simp_all add: log_def)
    ultimately show ?thesis using doRequest_frame[OF d] by blast
  qed
qed

section \<open>Fuel\<close>

text \<open>
  The fuel is no part of the program. A loop that ends within some fuel gives the same
  result with more; and the loop ends, so that \<open>DoRequest\<close> returns or panics, whenever
  there is no retry strategy or the strategy declines at some retry count \<open>n\<close>: fuel
  \<open>n + 1\<close> is then enough.
\<close>

lemma attempt_rb:
  assumes "attempt e verb u b cr cu opt k s = Inr (rq, res, s1)"
  shows "RetryStrategy (rb s1) = RetryStrategy (rb s)"
    and "circuitBreaker (rb s1) = circuitBreaker (rb s)"
    and "MetricsConfig (rb s1) = MetricsConfig (rb s)"
proof -
  have r1: "rb s1 = (rb s)\<lparr>poolName := poolName (rb s1), Client := Client (rb s1),
        clientMtxOnce := clientMtxOnce (rb s1), CustomPool := CustomPool (rb s1)\<rparr>"
    using attempt_frame[OF assms] unfolding loopFrame_def by blast
  show "RetryStrategy (rb s1) = RetryStrategy (rb s)" by (subst r1) simp
  show "circuitBreaker (rb s1) = circuitBreaker (rb s)" by (subst r1) simp
  show "MetricsConfig (rb s1) = MetricsConfig (rb s)" by (subst r1) simp
qed

lemma retryFunc_rb: "rb (retryFunc res d s) = rb s"
  by (cases res) (simp_all add: retryFunc_def log_def)

lemma retryLoop_returns:
  assumes "case RetryStrategy (rb s) of None \<Rightarrow> True
           | Some sr \<Rightarrow> \<forall>rq res. \<not> fst (sr rq res (k + n))"
  shows "\<exists>lr s'. retryLoop e (Suc n) verb u b cr cu opt k s = Some (lr, s')"
  using assms
proof (induction n arbitrary: k s)
  case 0
  show ?case
  proof (cases "newRequestErr e verb u")
    case (Some err)
    then show ?thesis by simp
  next
    case None
    show ?thesis
    proof (cases "attempt e verb u b cr cu opt k s")
      case (Inl sp)
      then show ?thesis using None by simp
    next
      case (Inr t)
      then obtain rq res s1 where at: "attempt e verb u b cr cu opt k s = Inr (rq, res, s1)"
        by (cases t) auto
      have rs: "RetryStrategy (rb s1) = RetryStrategy (rb s)" using attempt_rb(1)[OF at] .
      show ?thesis
      proof (cases "RetryStrategy (rb s)")
        case None': None
        then show ?thesis using None at rs by simp
      next
        case (Some sr)
        then have "\<not> fst (sr rq res k)" using "0.prems" by simp
        then show ?thesis using None at rs Some by (cases "sr rq res k") simp
      qed
    qed
  qed
next
  case (Suc n)
  show ?case
  proof (cases "newRequestErr e verb u")
    case (Some err)
    then show ?thesis by simp
  next
    case None
    show ?thesis
    proof (cases "attempt e verb u b cr cu opt k s")
      case (Inl sp)
      then show ?thesis using None by simp
    next
      case (Inr t)
      then obtain rq res s1 where at: "attempt e verb u b cr cu opt k s = Inr (rq, res, s1)"
        by (cases t) auto
      have rs: "RetryStrategy (rb s1) = RetryStrategy (rb s)" using attempt_rb(1)[OF at] .
      show ?thesis
      proof (cases "RetryStrategy (rb s)")
        case None': None
        then show ?thesis using None at rs by simp
      next
        case (Some sr)
        obtain retry delay where sr: "sr rq res k = (retry, delay)" by (cases "sr rq res k") auto
        have nx: "\<And>t :: state. rb t = rb s1 \<Longrightarrow>
            \<exists>lr s'. retryLoop e (Suc n) verb u b cr cu opt (Suc k) t = Some (lr, s')"
        proof -
          fix t :: state assume t: "rb t = rb s1"
          show "\<exists>lr s'. retryLoop e (Suc n) verb u b cr cu opt (Suc k) t = Some (lr, s')"
            by (rule Suc.IH) (use Suc.prems rs Some t in simp)
        qed
        have a: "\<exists>lr s'. retryLoop e (Suc n) verb u b cr cu opt (Suc k) (retryFunc res delay s1) = Some (lr, s')"
          by (rule nx) (simp add: retryFunc_rb)
        have b: "\<exists>lr s'. retryLoop e (Suc n) verb u b cr cu opt (Suc k)
             (retryFunc res delay (log LimiterAction s1)) = Some (lr, s')"
          by (rule nx) (simp add: retryFunc_rb log_def)
        show ?thesis
          using None at rs Some sr a b
          by (simp del: retryLoop.simps add: retryLoop.simps(2)[of e "Suc n"] limiterAction_def)
      qed
    qed
  qed
qed

lemma retryLoop_more_fuel:
  assumes "retryLoop e n verb u b cr cu opt k s = Some r"
  shows "retryLoop e (n + m) verb u b cr cu opt k s = Some r"
  using assms
proof (induction n arbitrary: k s)
  case 0
  then show ?case by simp
next
  case (Suc n)
  show ?case
  proof (cases "newRequestErr e verb u")
    case (Some err)
    with Suc.prems show ?thesis by simp
  next
    case None
    show ?thesis
    proof (cases "attempt e verb u b cr cu opt k s")
      case (Inl sp)
      with Suc.prems None show ?thesis by simp
    next
      case (Inr t)
      then obtain rq res s1 where at: "attempt e verb u b cr cu opt k s = Inr (rq, res, s1)"
        by (cases t) auto
      show ?thesis
      proof (cases "RetryStrategy (rb s1)")
        case None': None
        with Suc.prems None at show ?thesis by simp
      next
        case (Some sr)
        obtain retry delay where sr: "sr rq res k = (retry, delay)" by (cases "sr rq res k") auto
        show ?thesis
          using Suc.prems None at Some sr Suc.IH
          by (auto simp: limiterAction_def split: if_splits)
      qed
    qed
  qed
qed


lemma doRequest_returns:
  assumes "case RetryStrategy (rb s) of None \<Rightarrow> True
           | Some sr \<Rightarrow> \<forall>rq res. \<not> fst (sr rq res n)"
  shows "\<exists>out s'. doRequest e (Suc n) verb url bdy opt s = Some (out, s')"
proof -
  obtain cr s1 where cl: "cacheLookup e verb (BaseURL (rb s) @ url) s = (cr, s1)"
    by (cases "cacheLookup e verb (BaseURL (rb s) @ url) s") auto
  have "RetryStrategy (rb (dropConditional s1)) = RetryStrategy (rb s)"
    using cacheLookup_rb[OF cl] by (simp add: dropConditional_def)
  then have "case RetryStrategy (rb (dropConditional s1)) of None \<Rightarrow> True
           | Some sr \<Rightarrow> \<forall>rq res. \<not> fst (sr rq res (0 + n))"
    using assms by (simp split: option.splits)
  from retryLoop_returns[OF this]
  have lp: "\<And>u b cu. \<exists>lr s3. retryLoop e (Suc n) verb u b cr cu opt 0 (dropConditional s1)
              = Some (lr, s3)"
    by blast
  show ?thesis
  proof (cases "case cr of Some c \<Rightarrow> \<not> revalidate c | None \<Rightarrow> False")
    case True
    with cl show ?thesis by (simp add: doRequest_def Let_def del: retryLoop.simps)
  next
    case False
    show ?thesis
    proof (cases "marshalReqBody e (rb (dropConditional s1)) bdy")
      case (Inl err)
      with cl False show ?thesis by (simp add: doRequest_def Let_def del: retryLoop.simps)
    next
      case (Inr b)
      obtain u cu eo where cm: "checkMockup e (BaseURL (rb s) @ url) = (u, cu, eo)"
        by (cases "checkMockup e (BaseURL (rb s) @ url)") auto
      show ?thesis
      proof (cases eo)
        case (Some err)
        with cl False Inr cm show ?thesis by (simp add: doRequest_def Let_def del: retryLoop.simps)
      next
        case None
        obtain lr s3 where l: "retryLoop e (Suc n) verb u b cr cu opt 0 (dropConditional s1)
              = Some (lr, s3)"
          using lp by blast
        show ?thesis
        proof (cases lr)
          case (LoopErr err)
          with cl False Inr cm None l show ?thesis
            by (simp add: doRequest_def Let_def del: retryLoop.simps)
        next
          case LoopPanic
          with cl False Inr cm None l show ?thesis
            by (simp add: doRequest_def Let_def del: retryLoop.simps)
        next
          case (LoopDone res)
          show ?thesis
          proof (cases res)
            case (Inl err)
            with cl False Inr cm None l LoopDone show ?thesis
              by (simp add: doRequest_def Let_def del: retryLoop.simps)
          next
            case Inr': (Inr hr)
            with cl False Inr cm None l LoopDone show ?thesis
              by (cases "respond e verb cu cr hr s3")
                (simp add: doRequest_def Let_def del: retryLoop.simps)
          qed
        qed
      qed
    qed
  qed
qed

lemma DoRequest_returns:
  assumes "case RetryStrategy (rb s) of None \<Rightarrow> True
           | Some sr \<Rightarrow> \<forall>rq res. \<not> fst (sr rq res n)"
  shows "\<exists>out s'. DoRequest e (Suc n) verb url bdy opts s = Some (out, s')"
proof -
  let ?opt = "foldl (\<lambda>ro opt. opt ro) zero_reqOptions opts"
  have a: "\<exists>out s'. doRequest e (Suc n) verb url bdy ?opt s = Some (out, s')"
    using assms by (rule doRequest_returns)
  have "case RetryStrategy (rb (log BreakerAllow s)) of None \<Rightarrow> True
           | Some sr \<Rightarrow> \<forall>rq res. \<not> fst (sr rq res n)"
    using assms by (simp add: log_def split: option.splits)
  then have b: "\<exists>out s'. doRequest e (Suc n) verb url bdy ?opt (log BreakerAllow s) = Some (out, s')"
    by (rule doRequest_returns)
  show ?thesis
  proof (cases "circuitBreaker (rb s)")
    case None
    then show ?thesis using a by (simp add: DoRequest_def Let_def del: retryLoop.simps)
  next
    case (Some cb)
    obtain out s' where d: "doRequest e (Suc n) verb url bdy ?opt (log BreakerAllow s) = Some (out, s')"
      using b by blast
    show ?thesis
      using Some d
      by (cases "Allow cb"; cases "snd (Allow cb)"; cases out; cases "fst (Allow cb)")
         (auto simp: DoRequest_def Let_def simp del: retryLoop.simps)
  qed
qed

text \<open>
  The panic of an attempt on a nil client: no network call is made.
\<close>

lemma nil_client_panics:
  "map_option (\<lambda>(out, s'). (out, filter isNetCall (trace s'), Client (rb s')))
     (DoRequest env0 1 ''GET'' ''/items'' None [] nil_client_state) = Some (Panics, [], None)"
  by code_simp

section \<open>The circuit breaker denies the call\<close>

text \<open>
  C1. When a circuit breaker is configured and its \<open>Allow()\<close> returns an error,
  \<open>DoRequest\<close> returns the synthetic Response that carries this error and status 500.
  Apart from the call to \<open>Allow\<close> itself, which the trace records, the state is the one
  before the call: nothing was read from or written to the cache, nothing was sent, and
  the retry loop did not run (the result does not depend on the fuel, and holds at fuel 0).
\<close>

theorem DoRequest_breaker_denies:
  assumes "circuitBreaker (rb s) = Some cb" "snd (Allow cb) = Some err"
  shows "DoRequest e fuel verb url bdy opts s
           = Some (Returns (Some (denied err)), s\<lparr>trace := trace s @ [BreakerAllow]\<rparr>)
         \<and> Err (denied err) = Some err
         \<and> map_option StatusCode (http (denied err)) = Some 500"
  using assms
  by (cases "Allow cb") (simp add: DoRequest_def log_def denied_def new_Response_def Let_def)

theorem DoRequest_breaker_denies_witness:
  "DoRequest env0 0 ''GET'' ''/items'' None []
       (with_rb (\<lambda>b. b\<lparr>circuitBreaker := Some open_breaker\<rparr>) state0)
     = Some (Returns (Some (denied ''circuit breaker is open'')),
             (with_rb (\<lambda>b. b\<lparr>circuitBreaker := Some open_breaker\<rparr>) state0)
               \<lparr>trace := [BreakerAllow]\<rparr>)
   \<and> Err (denied ''circuit breaker is open'') = Some ''circuit breaker is open''
   \<and> map_option StatusCode (http (denied ''circuit breaker is open'')) = Some 500"
proof -
  let ?s = "with_rb (\<lambda>b. b\<lparr>circuitBreaker := Some open_breaker\<rparr>) state0"
  have a: "circuitBreaker (rb ?s) = Some open_breaker"
    by (simp add: with_rb_def)
  have b: "snd (Allow open_breaker) = Some ''circuit breaker is open''"
    by (simp add: open_breaker_def)
  have t: "trace ?s = []" by (simp add: with_rb_def state0_def)
  show ?thesis
    using DoRequest_breaker_denies [OF a b, of env0 0 "''GET''" "''/items''" None "[]"]
    by (simp add: t)
qed

section \<open>The success flag of the breaker callback\<close>

lemma sdiv_5xx: "((c::int) sdiv 100 \<noteq> 5) = (\<not> (500 \<le> c \<and> c \<le> 599))"
proof (cases "0 \<le> c")
  case True
  then have "c sdiv 100 = c div 100" by (simp add: signed_divide_int_def sgn_if)
  then show ?thesis by auto
next
  case False
  then have "c sdiv 100 = - (\<bar>c\<bar> div 100)" by (simp add: signed_divide_int_def sgn_if)
  moreover have "0 \<le> \<bar>c\<bar> div 100" by simp
  ultimately show ?thesis using False by auto
qed



text \<open>
  C8. The claim does not hold of the code for every admitted call. With caching on,
  nothing cached for the URL and a breaker that admits the call, a \<open>304\<close> from the server
  makes \<open>doRequest\<close> return nil; \<open>DoRequest\<close> dereferences it at \<open>result.Err\<close> and panics
  before it reaches \<open>after(success)\<close>. The breaker was asked and admitted the call, one
  network call was made, and the completion callback was never invoked.
\<close>

theorem breaker_callback_skipped_on_nil_result:
  "circuitBreaker (rb miss_breaker_state) = Some closed_breaker
   \<and> Allow closed_breaker = (True, None)
   \<and> map_option (\<lambda>(out, s'). (out, take 1 (trace s'), length (filter isNetCall (trace s')),
                    filter isBreakerAfter (trace s')))
       (DoRequest env304 1 ''GET'' ''/items'' None [] miss_breaker_state)
     = Some (Panics, [BreakerAllow], 1, [])"
  by code_simp

text \<open>
  Where the claim does hold. When the configured breaker admits the call (\<open>Allow()\<close> gives
  a callback and no error) and \<open>DoRequest\<close> returns, it returns the Response that
  \<open>doRequest\<close> produced, and the callback has been invoked exactly once, after \<open>doRequest\<close>
  finished: the trace of \<open>doRequest\<close> holds no callback event and is followed by exactly
  one. Its argument is true if and only if the error field of that Response is nil and
  its status is outside \<open>500..599\<close>.
\<close>

theorem breaker_callback_once:
  assumes cb: "circuitBreaker (rb s) = Some cb" "Allow cb = (True, None)"
    and ret: "DoRequest e fuel verb url bdy opts s = Some (Returns res, s')"
  shows "\<exists>r s1. res = Some r
       \<and> doRequest e fuel verb url bdy (foldl (\<lambda>ro opt. opt ro) zero_reqOptions opts)
            (log BreakerAllow s) = Some (Returns (Some r), s1)
       \<and> trace s' = trace s1 @ [BreakerAfter (Err r = None \<and>
              (\<exists>hr. http r = Some hr \<and> \<not> (500 \<le> StatusCode hr \<and> StatusCode hr \<le> 599)))]
       \<and> filter isBreakerAfter (trace s1) = filter isBreakerAfter (trace s)"
proof -
  let ?opt = "foldl (\<lambda>ro opt. opt ro) zero_reqOptions opts"
  obtain o1 s1 where d: "doRequest e fuel verb url bdy ?opt (log BreakerAllow s) = Some (o1, s1)"
    using cb ret by (cases "doRequest e fuel verb url bdy ?opt (log BreakerAllow s)")
      (auto simp: DoRequest_def Let_def)
  obtain result where o1: "o1 = Returns result"
    using cb ret d by (cases o1) (auto simp: DoRequest_def Let_def)
  have ca: "callAfter result s1 = (Returns res, s')"
    using cb ret d o1 by (simp add: DoRequest_def Let_def)
  obtain r where r: "result = Some r"
    using ca by (cases result) (auto simp: callAfter_def)
  have res: "res = Some r"
    using ca r by (auto simp: callAfter_def split: option.splits)
  have tr: "trace s' = trace s1 @ [BreakerAfter (Err r = None \<and>
              (\<exists>hr. http r = Some hr \<and> \<not> (500 \<le> StatusCode hr \<and> StatusCode hr \<le> 599)))]"
    using ca r by (auto simp: callAfter_def log_def sdiv_5xx split: option.splits)
  obtain evs where ev: "trace s1 = trace (log BreakerAllow s) @ evs" "list_all engineEvent evs"
    using doRequest_frame[OF d] unfolding requestFrame_def by blast
  have "filter isBreakerAfter (trace s1) = filter isBreakerAfter (trace s)"
    using ev engine_not_after[OF ev(2)] by (simp add: log_def isBreakerAfter_def)
  then show ?thesis using d o1 r res tr by blast
qed

theorem breaker_callback_once_witness:
  "map_option (\<lambda>(out, s'). (out, filter isBreakerAfter (trace s')))
     (DoRequest env0 1 ''GET'' ''/items'' None [] breaker_state)
   = Some (Returns (Some (new_Response\<lparr>http := Some ok200, byteBody := ''ok''\<rparr>)),
           [BreakerAfter True])"
proof -
  let ?R = "new_Response\<lparr>http := Some ok200, byteBody := ''ok''\<rparr>"
  have a: "circuitBreaker (rb breaker_state) = Some closed_breaker"
    by (simp add: breaker_state_def with_rb_def)
  have b: "Allow closed_breaker = (True, None)" by (simp add: closed_breaker_def)
  have p: "map_option fst (DoRequest env0 1 ''GET'' ''/items'' None [] breaker_state)
             = Some (Returns (Some ?R))"
    by code_simp
  then obtain s' where E: "DoRequest env0 1 ''GET'' ''/items'' None [] breaker_state
             = Some (Returns (Some ?R), s')"
    by (cases "DoRequest env0 1 ''GET'' ''/items'' None [] breaker_state") auto
  have t0: "filter isBreakerAfter (trace breaker_state) = []"
    by code_simp
  have ok: "Err ?R = None" "http ?R = Some ok200" "StatusCode ok200 = 200"
    by (simp_all add: new_Response_def ok200_def)
  from breaker_callback_once [OF a b E]
  have "filter isBreakerAfter (trace s') = [BreakerAfter True]"
    using t0 ok by (auto simp: isBreakerAfter_def)
  then show ?thesis using E by simp
qed

text \<open>
  When \<open>DoRequest\<close> panics on an admitted call, the callback has not been invoked:
  \<open>doRequest\<close> panicked, or it returned nil, or a Response without its embedded response.
\<close>

lemma breaker_callback_never:
  assumes cb: "circuitBreaker (rb s) = Some cb" "Allow cb = (True, None)"
    and ret: "DoRequest e fuel verb url bdy opts s = Some (Panics, s')"
  shows "filter isBreakerAfter (trace s') = filter isBreakerAfter (trace s)
       \<and> (\<exists>o1. doRequest e fuel verb url bdy (foldl (\<lambda>ro opt. opt ro) zero_reqOptions opts)
              (log BreakerAllow s) = Some (o1, s')
            \<and> (o1 = Panics \<or> o1 = Returns None
                \<or> (\<exists>r. o1 = Returns (Some r) \<and> Err r = None \<and> http r = None)))"
proof -
  let ?opt = "foldl (\<lambda>ro opt. opt ro) zero_reqOptions opts"
  obtain o1 s1 where d: "doRequest e fuel verb url bdy ?opt (log BreakerAllow s) = Some (o1, s1)"
    using cb ret by (cases "doRequest e fuel verb url bdy ?opt (log BreakerAllow s)")
      (auto simp: DoRequest_def Let_def)
  have s1: "s1 = s'"
    using cb ret d
    by (cases o1) (auto simp: DoRequest_def Let_def callAfter_def split: option.splits)
  have o1: "o1 = Panics \<or> o1 = Returns None
                \<or> (\<exists>r. o1 = Returns (Some r) \<and> Err r = None \<and> http r = None)"
    using cb ret d
    by (cases o1) (auto simp: DoRequest_def Let_def callAfter_def split: option.splits)
  obtain evs where ev: "trace s1 = trace (log BreakerAllow s) @ evs" "list_all engineEvent evs"
    using doRequest_frame[OF d] unfolding requestFrame_def by blast
  have "filter isBreakerAfter (trace s1) = filter isBreakerAfter (trace s)"
    using ev engine_not_after[OF ev(2)] by (simp add: log_def isBreakerAfter_def)
  then show ?thesis using d s1 o1 by blast
qed

section \<open>Local failures and the breaker\<close>

text \<open>
  C10. When the breaker admits the call and the request fails locally, before any
  network attempt (the body cannot be marshalled, as with the \<open>BYTES\<close> content type and
  a body that is not a byte slice; or \<open>checkMockup\<close> or \<open>http.NewRequest\<close> fails),
  \<open>DoRequest\<close> returns the Response carrying that error, the callback is invoked with
  \<open>false\<close>, and no network call was made.
\<close>

theorem local_failure_counts_against_breaker:
  assumes "circuitBreaker (rb s) = Some cb" "Allow cb = (True, None)"
    and "cacheLookup e verb (BaseURL (rb s) @ url) (log BreakerAllow s) = (cr, s1)"
    and "\<forall>c. cr = Some c \<longrightarrow> revalidate c"
    and "localFailure e verb (BaseURL (rb s) @ url) (rb (dropConditional s1)) bdy = Some err"
    and "0 < fuel"
  shows "DoRequest e fuel verb url bdy opts s
           = Some (Returns (Some (failed err)), log (BreakerAfter False) (dropConditional s1))
       \<and> filter isNetCall (trace (log (BreakerAfter False) (dropConditional s1)))
           = filter isNetCall (trace s)"
proof -
  let ?opt = "foldl (\<lambda>ro opt. opt ro) zero_reqOptions opts"
  have rbl: "BaseURL (rb (log BreakerAllow s)) = BaseURL (rb s)" by (simp add: log_def)
  have d: "doRequest e fuel verb url bdy ?opt (log BreakerAllow s)
             = Some (Returns (Some (failed err)), dropConditional s1)"
    by (rule doRequest_local_failure) (use assms rbl in simp_all)
  have "DoRequest e fuel verb url bdy opts s
           = Some (callAfter (Some (failed err)) (dropConditional s1))"
    using assms(1,2) d by (simp add: DoRequest_def Let_def)
  then have 1: "DoRequest e fuel verb url bdy opts s
           = Some (Returns (Some (failed err)), log (BreakerAfter False) (dropConditional s1))"
    by (simp add: callAfter_def failed_def new_Response_def)
  have "trace (dropConditional s1) = trace s1" by (simp add: dropConditional_def)
  moreover have "trace s1 = trace s @ [BreakerAllow]
                 \<or> trace s1 = trace s @ [BreakerAllow, CacheGet (BaseURL (rb s) @ url)]"
    using assms(3)
    by (auto simp: cacheLookup_def cache_get_def log_def Let_def split: if_splits option.splits)
  ultimately have 2: "filter isNetCall (trace (log (BreakerAfter False) (dropConditional s1)))
           = filter isNetCall (trace s)"
    by (auto simp: log_def isNetCall_def)
  show ?thesis using 1 2 by simp
qed

theorem local_failure_counts_against_breaker_witness:
  "map_option (\<lambda>(out, s'). (out, trace s'))
     (DoRequest env0 1 ''POST'' ''/items'' (Some (Obj ''x'')) [] bytes_state)
   = Some (Returns (Some (failed ''bytes: body is string(x) not a byte slice'')),
           [BreakerAllow, BreakerAfter False])"
proof -
  have a: "circuitBreaker (rb bytes_state) = Some closed_breaker"
    by (simp add: bytes_state_def with_rb_def)
  have b: "Allow closed_breaker = (True, None)" by (simp add: closed_breaker_def)
  have c: "cacheLookup env0 ''POST'' (BaseURL (rb bytes_state) @ ''/items'') (log BreakerAllow bytes_state)
             = (None, log BreakerAllow bytes_state)"
    by (simp add: cacheLookup_def log_def bytes_state_def with_rb_def state0_def rb0_def)
  have d: "\<forall>c. (None :: Response option) = Some c \<longrightarrow> revalidate c" by simp
  have f: "localFailure env0 ''POST'' (BaseURL (rb bytes_state) @ ''/items'')
             (rb (dropConditional (log BreakerAllow bytes_state))) (Some (Obj ''x''))
           = Some ''bytes: body is string(x) not a byte slice''"
    by code_simp
  have g: "0 < (1::nat)" by simp
  have t: "trace (log (BreakerAfter False) (dropConditional (log BreakerAllow bytes_state)))
            = [BreakerAllow, BreakerAfter False]"
    by code_simp
  show ?thesis
    using local_failure_counts_against_breaker [OF a b c d f g, of "[]"] by (simp add: t)
qed

section \<open>When the client is built\<close>

text \<open>
  A call that reaches the network, or panics on a nil client, leaves \<open>clientMtxOnce\<close>
  run: every attempt goes through \<open>getClient\<close>.
\<close>

lemma doRequest_cases:
  assumes d: "doRequest e fuel verb url bdy opt s = Some (out, s')"
    and cl: "cacheLookup e verb (BaseURL (rb s) @ url) s = (cr, s1)"
  shows "s' = s1 \<or> s' = dropConditional s1
       \<or> (\<exists>u b cu lr s3. retryLoop e fuel verb u b cr cu opt 0 (dropConditional s1) = Some (lr, s3)
             \<and> (s' = s3 \<or> (\<exists>hr. respond e verb cu cr hr s3 = (out, s'))))"
proof (cases "case cr of Some c \<Rightarrow> \<not> revalidate c | None \<Rightarrow> False")
  case True
  with d cl have "s' = s1" by (simp add: doRequest_def Let_def)
  then show ?thesis by simp
next
  case False
  show ?thesis
  proof (cases "marshalReqBody e (rb (dropConditional s1)) bdy")
    case (Inl err)
    with d cl False have "s' = dropConditional s1" by (simp add: doRequest_def Let_def)
    then show ?thesis by simp
  next
    case (Inr b)
    obtain u cu eo where cm: "checkMockup e (BaseURL (rb s) @ url) = (u, cu, eo)"
      by (cases "checkMockup e (BaseURL (rb s) @ url)") auto
    show ?thesis
    proof (cases eo)
      case (Some err)
      with d cl False Inr cm have "s' = dropConditional s1" by (simp add: doRequest_def Let_def)
      then show ?thesis by simp
    next
      case None
      show ?thesis
      proof (cases "retryLoop e fuel verb u b cr cu opt 0 (dropConditional s1)")
        case None': None
        with d cl False Inr cm None show ?thesis by (simp add: doRequest_def Let_def)
      next
        case (Some p)
        obtain lr s3 where p: "p = (lr, s3)" by (cases p) auto
        have "s' = s3 \<or> (\<exists>hr. respond e verb cu cr hr s3 = (out, s'))"
          using d cl False Inr cm None Some p
          by (cases lr) (auto simp: doRequest_def Let_def split: sum.splits)
        then show ?thesis using Some p by blast
      qed
    qed
  qed
qed

lemma getClient_once: "clientMtxOnce (rb (getClient e s))"
  by (simp add: getClient_def buildClient_once)

lemma attempt_once:
  assumes "attempt e verb u b cr cu opt k s = Inr (rq, res, s')"
  shows "clientMtxOnce (rb s')"
  using assms
  by (auto simp: attempt_def Let_def log_def getClient_once split: if_splits)

lemma attempt_panic_once:
  assumes "attempt e verb u b cr cu opt k s = Inl s'"
  shows "clientMtxOnce (rb s')"
  using assms
  by (auto simp: attempt_def Let_def getClient_once split: if_splits)

lemma retryLoop_once:
  "retryLoop e fuel verb u b cr cu opt k s = Some (lr, s') \<Longrightarrow> s' = s \<or> clientMtxOnce (rb s')"
proof (induction fuel arbitrary: k s)
  case 0
  then show ?case by simp
next
  case (Suc fuel)
  show ?case
  proof (cases "newRequestErr e verb u")
    case (Some err)
    with Suc.prems show ?thesis by simp
  next
    case None
    show ?thesis
    proof (cases "attempt e verb u b cr cu opt k s")
      case (Inl sp)
      with Suc.prems None have "s' = sp" by simp
      then show ?thesis using attempt_panic_once[OF Inl] by simp
    next
      case (Inr t)
      then obtain rq res s1 where at: "attempt e verb u b cr cu opt k s = Inr (rq, res, s1)"
        by (cases t) auto
      have o1: "clientMtxOnce (rb s1)" using at by (rule attempt_once)
      have nx: "clientMtxOnce (rb s')"
        if "retryLoop e fuel verb u b cr cu opt (Suc k) t = Some (lr, s')" "rb t = rb s1" for t
        using Suc.IH[OF that(1)] that(2) o1 by auto
      show ?thesis
      proof (cases "RetryStrategy (rb s1)")
        case None': None
        from Suc.prems have "s' = s1" by (simp add: None at None')
        then show ?thesis using o1 by simp
      next
        case (Some sr)
        obtain retry delay where sr: "sr rq res k = (retry, delay)" by (cases "sr rq res k") auto
        show ?thesis
        proof (cases retry)
          case False
          from Suc.prems have "s' = s1" by (simp add: None at Some sr False)
          then show ?thesis using o1 by simp
        next
          case True
          note retry = True
          show ?thesis
          proof (cases "circuitBreaker (rb s1) \<noteq> None")
            case True
            from Suc.prems
            have "retryLoop e fuel verb u b cr cu opt (Suc k) (retryFunc res delay s1) = Some (lr, s')"
              using True by (simp add: None at Some sr retry)
            then have "clientMtxOnce (rb s')" by (rule nx) (simp add: retryFunc_rb)
            then show ?thesis by simp
          next
            case False
            note nobr = False
            show ?thesis
            proof (cases "limiterAdmits e k")
              case True
              from Suc.prems
              have "retryLoop e fuel verb u b cr cu opt (Suc k)
                      (retryFunc res delay (log LimiterAction s1)) = Some (lr, s')"
                using nobr True by (simp add: None at Some sr retry limiterAction_def)
              then have "clientMtxOnce (rb s')" by (rule nx) (simp add: retryFunc_rb log_def)
              then show ?thesis by simp
            next
              case False
              from Suc.prems
              have "s' = retryBreak (log LimiterAction s1)"
                using nobr False by (simp add: None at Some sr retry limiterAction_def)
              then have "rb s' = rb s1" by (simp add: retryBreak_def log_def)
              then show ?thesis using o1 by simp
            qed
          qed
        qed
      qed
    qed
  qed
qed

lemma cacheLookup_quiet:
  assumes "cacheLookup e verb u s = (cr, s1)"
  shows "filter isNetCall (trace s1) = filter isNetCall (trace s)"
  using assms
  by (auto simp: cacheLookup_def cache_get_def log_def Let_def isNetCall_def
      split: if_splits option.splits)

lemma respond_quiet:
  assumes "respond e verb cu cr hr s = (out, s')"
  shows "filter isNetCall (trace s') = filter isNetCall (trace s)"
  using assms
  by (auto simp: respond_def cache_setNX_def log_def Let_def isNetCall_def
      split: if_splits option.splits sum.splits prod.splits)

lemma doRequest_once:
  assumes d: "doRequest e fuel verb url bdy opt s = Some (out, s')"
  shows "clientMtxOnce (rb s') \<or> filter isNetCall (trace s') = filter isNetCall (trace s)"
proof -
  obtain cr s1 where cl: "cacheLookup e verb (BaseURL (rb s) @ url) s = (cr, s1)"
    by (cases "cacheLookup e verb (BaseURL (rb s) @ url) s") auto
  have r1: "rb s1 = rb s" using cl by (rule cacheLookup_rb)
  have q1: "filter isNetCall (trace s1) = filter isNetCall (trace s)"
    using cl by (rule cacheLookup_quiet)
  have rd: "rb (dropConditional s1) = rb (dropConditional s)"
    using r1 by (simp add: dropConditional_def)
  have qd: "filter isNetCall (trace (dropConditional s1)) = filter isNetCall (trace s)"
    using q1 by (simp add: dropConditional_def)
  from doRequest_cases[OF d cl]
  consider "s' = s1" | "s' = dropConditional s1"
    | u b cu lr s3 where "retryLoop e fuel verb u b cr cu opt 0 (dropConditional s1) = Some (lr, s3)"
        "s' = s3 \<or> (\<exists>hr. respond e verb cu cr hr s3 = (out, s'))"
    by blast
  then show ?thesis
  proof cases
    case 1
    then show ?thesis using r1 q1 by simp
  next
    case 2
    then show ?thesis using rd qd by simp
  next
    case 3
    have k: "rb s' = rb s3 \<and> filter isNetCall (trace s') = filter isNetCall (trace s3)"
      using 3(2) respond_frame respond_quiet by blast
    from retryLoop_once[OF 3(1)] show ?thesis
    proof
      assume "s3 = dropConditional s1"
      then show ?thesis using k rd qd by simp
    next
      assume "clientMtxOnce (rb s3)"
      then show ?thesis using k by simp
    qed
  qed
qed

lemma DoRequest_once:
  assumes "DoRequest e fuel verb url bdy opts s = Some (out, s')"
  shows "clientMtxOnce (rb s') \<or> filter isNetCall (trace s') = filter isNetCall (trace s)"
proof (cases "circuitBreaker (rb s)")
  case None
  with assms have "doRequest e fuel verb url bdy (foldl (\<lambda>ro opt. opt ro) zero_reqOptions opts) s
      = Some (out, s')"
    by (simp add: DoRequest_def Let_def)
  from doRequest_once[OF this] show ?thesis by blast
next
  case (Some cb)
  let ?opt = "foldl (\<lambda>ro opt. opt ro) zero_reqOptions opts"
  obtain a eo where al: "Allow cb = (a, eo)" by (cases "Allow cb") auto
  show ?thesis
  proof (cases eo)
    case Some': (Some err)
    with assms Some al have "s' = log BreakerAllow s" by (simp add: DoRequest_def Let_def)
    then show ?thesis by (simp add: log_def isNetCall_def)
  next
    case None
    obtain o1 s1 where d: "doRequest e fuel verb url bdy ?opt (log BreakerAllow s) = Some (o1, s1)"
      using assms Some al None
      by (cases "doRequest e fuel verb url bdy ?opt (log BreakerAllow s)")
        (auto simp: DoRequest_def Let_def)
    have k: "rb s' = rb s1 \<and> filter isNetCall (trace s') = filter isNetCall (trace s1)"
      using assms Some al None d
      by (auto simp: DoRequest_def Let_def callAfter_def log_def isNetCall_def
          split: outcome.splits if_splits option.splits)
    have "filter isNetCall (trace (log BreakerAllow s)) = filter isNetCall (trace s)"
      by (simp add: log_def isNetCall_def)
    then show ?thesis using doRequest_once[OF d] k by auto
  qed
qed

section \<open>What \<open>DoRequest\<close> changes in the builder\<close>

text \<open>
  C7, as the code has it. \<open>DoRequest\<close> leaves every field of the builder as it was,
  except these: \<open>Headers\<close>, from which the headers \<open>If-None-Match\<close> and
  \<open>If-Modified-Since\<close> are deleted when caching is off (with caching on the headers are
  unchanged); \<open>poolName\<close>, which an attempt sets to the caller's file when it was empty;
  and \<open>Client\<close>, \<open>clientMtxOnce\<close> and \<open>CustomPool\<close>, which are either all as they were,
  or, on a builder whose \<open>clientMtxOnce\<close> had not run, are what the first attempt makes
  them: \<open>Client\<close> is a new client, whatever the field held before, with the transport of
  \<open>getTransport\<close>, the sum of the two timeouts and the redirect policy of
  \<open>FollowRedirect\<close>; \<open>clientMtxOnce\<close> has run; and the pool is the one \<open>getTransport\<close>
  leaves. They are as they were only if \<open>clientMtxOnce\<close> had run or the call made no
  network call: after a call that made one, \<open>clientMtxOnce\<close> has run.
\<close>

theorem DoRequest_configuration:
  assumes "DoRequest e fuel verb url bdy opts s = Some (out, s')"
  shows "rb s' = (rb s)\<lparr>Headers := Headers (rb s'), poolName := poolName (rb s'),
                        Client := Client (rb s'), clientMtxOnce := clientMtxOnce (rb s'),
                        CustomPool := CustomPool (rb s')\<rparr>
       \<and> (Headers (rb s') = Headers (rb s)
            \<or> \<not> EnableCache (rb s) \<and> Headers (rb s') = noConditional (Headers (rb s)))
       \<and> (poolName (rb s') = poolName (rb s)
            \<or> poolName (rb s) = [] \<and> poolName (rb s') = callerFile e)
       \<and> (Client (rb s') = Client (rb s) \<and> clientMtxOnce (rb s') = clientMtxOnce (rb s)
              \<and> CustomPool (rb s') = CustomPool (rb s)
            \<or> \<not> clientMtxOnce (rb s)
              \<and> Client (rb s') = Some \<lparr>clientTransport = fst (getTransport e (rb s)),
                    clientTimeout = getConnectionTimeout e (rb s) + getRequestTimeout e (rb s),
                    avoidRedirect = (\<not> FollowRedirect (rb s))\<rparr>
              \<and> clientMtxOnce (rb s')
              \<and> CustomPool (rb s') = snd (getTransport e (rb s)))
       \<and> (clientMtxOnce (rb s')
            \<or> filter isNetCall (trace s') = filter isNetCall (trace s))"
proof -
  note o = DoRequest_once[OF assms]
  obtain s0 s1 where f: "requestFrame e s0 s1" "rb s0 = rb s" "rb s' = rb s1"
    using DoRequest_frame[OF assms] by blast
  have c: "clientStep e (rb s) (rb s')"
    using f unfolding requestFrame_def by simp
  have p: "clientPart (buildClient e (rb s))
      = (Some \<lparr>clientTransport = fst (getTransport e (rb s)),
                clientTimeout = getConnectionTimeout e (rb s) + getRequestTimeout e (rb s),
                avoidRedirect = (\<not> FollowRedirect (rb s))\<rparr>,
         True, snd (getTransport e (rb s)))"
    by (simp add: clientPart_def buildClient_def split: prod.splits)
  have "Client (rb s') = Client (rb s) \<and> clientMtxOnce (rb s') = clientMtxOnce (rb s)
              \<and> CustomPool (rb s') = CustomPool (rb s)
            \<or> \<not> clientMtxOnce (rb s)
              \<and> Client (rb s') = Some \<lparr>clientTransport = fst (getTransport e (rb s)),
                    clientTimeout = getConnectionTimeout e (rb s) + getRequestTimeout e (rb s),
                    avoidRedirect = (\<not> FollowRedirect (rb s))\<rparr>
              \<and> clientMtxOnce (rb s')
              \<and> CustomPool (rb s') = snd (getTransport e (rb s))"
    using c unfolding clientStep_def p by (auto simp: clientPart_def)
  then show ?thesis using f o unfolding requestFrame_def by auto
qed

theorem DoRequest_configuration_witness:
  "map_option (\<lambda>(out, s'). rb s' = (rb cond_state)\<lparr>Headers := [(''X-Api-Key'', [''k''])],
        poolName := ''pool_main'',
        Client := Some \<lparr>clientTransport = Some (HttpTransport \<lparr>tMaxIdleConnsPerHost = 2,
             tProxy = ProxyFromEnvironment, tDialTimeout = 1500000000,
             tResponseHeaderTimeout = 500000000\<rparr>),
           clientTimeout = 2000000000, avoidRedirect = True\<rparr>,
        clientMtxOnce := True, CustomPool := None\<rparr>)
     (DoRequest env0 1 ''GET'' ''/items'' None [] cond_state) = Some True
   \<and> map_option (\<lambda>(out, s'). rb s' = (rb preset_state)\<lparr>
        Client := Some \<lparr>clientTransport = Some (HttpTransport \<lparr>tMaxIdleConnsPerHost = 5,
             tProxy = ProxyFromEnvironment, tDialTimeout = 1500000000,
             tResponseHeaderTimeout = 500000000\<rparr>),
           clientTimeout = 2000000000, avoidRedirect = True\<rparr>,
        clientMtxOnce := True,
        CustomPool := Some \<lparr>MaxIdleConnsPerHost = 10, Proxy = ''http://proxy:3128'',
           Transport = Some (HttpTransport \<lparr>tMaxIdleConnsPerHost = 5,
             tProxy = ProxyFromEnvironment, tDialTimeout = 1500000000,
             tResponseHeaderTimeout = 500000000\<rparr>), once = True\<rparr>\<rparr>)
     (DoRequest env0 1 ''GET'' ''/items'' None [] preset_state) = Some True"
proof -
  let ?tr = "Some (HttpTransport \<lparr>tMaxIdleConnsPerHost = 2,
             tProxy = ProxyFromEnvironment, tDialTimeout = 1500000000,
             tResponseHeaderTimeout = 500000000\<rparr>)"
  let ?tr' = "Some (HttpTransport \<lparr>tMaxIdleConnsPerHost = 5,
             tProxy = ProxyFromEnvironment, tDialTimeout = 1500000000,
             tResponseHeaderTimeout = 500000000\<rparr>)"
  let ?cp' = "Some \<lparr>MaxIdleConnsPerHost = 10, Proxy = ''http://proxy:3128'',
           Transport = ?tr', once = True\<rparr>"
  have p: "map_option (\<lambda>(out, s'). (Headers (rb s'), poolName (rb s'), Client (rb s'),
               clientMtxOnce (rb s'), CustomPool (rb s')))
             (DoRequest env0 1 ''GET'' ''/items'' None [] cond_state)
           = Some ([(''X-Api-Key'', [''k''])], ''pool_main'',
                   Some \<lparr>clientTransport = ?tr, clientTimeout = 2000000000, avoidRedirect = True\<rparr>,
                   True, None)"
    by code_simp
  then obtain out s' where E: "DoRequest env0 1 ''GET'' ''/items'' None [] cond_state = Some (out, s')"
    by (cases "DoRequest env0 1 ''GET'' ''/items'' None [] cond_state") auto
  have q: "Headers (rb s') = [(''X-Api-Key'', [''k''])]" "poolName (rb s') = ''pool_main''"
      "Client (rb s') = Some \<lparr>clientTransport = ?tr, clientTimeout = 2000000000, avoidRedirect = True\<rparr>"
      "clientMtxOnce (rb s') = True" "CustomPool (rb s') = None"
    using p E by simp_all
  from DoRequest_configuration [OF E]
  have "rb s' = (rb cond_state)\<lparr>Headers := Headers (rb s'), poolName := poolName (rb s'),
                        Client := Client (rb s'), clientMtxOnce := clientMtxOnce (rb s'),
                        CustomPool := CustomPool (rb s')\<rparr>"
    by blast
  then have A: "rb s' = (rb cond_state)\<lparr>Headers := [(''X-Api-Key'', [''k''])],
        poolName := ''pool_main'',
        Client := Some \<lparr>clientTransport = ?tr, clientTimeout = 2000000000, avoidRedirect = True\<rparr>,
        clientMtxOnce := True, CustomPool := None\<rparr>"
    using q by simp
  have p2: "map_option (\<lambda>(out, s'). (Headers (rb s'), poolName (rb s'), Client (rb s'),
               clientMtxOnce (rb s'), CustomPool (rb s')))
             (DoRequest env0 1 ''GET'' ''/items'' None [] preset_state)
           = Some (Headers (rb preset_state), poolName (rb preset_state),
                   Some \<lparr>clientTransport = ?tr', clientTimeout = 2000000000, avoidRedirect = True\<rparr>,
                   True, ?cp')"
    by code_simp
  then obtain out2 s2 where E2: "DoRequest env0 1 ''GET'' ''/items'' None [] preset_state = Some (out2, s2)"
    by (cases "DoRequest env0 1 ''GET'' ''/items'' None [] preset_state") auto
  have q2: "Headers (rb s2) = Headers (rb preset_state)" "poolName (rb s2) = poolName (rb preset_state)"
      "Client (rb s2) = Some \<lparr>clientTransport = ?tr', clientTimeout = 2000000000, avoidRedirect = True\<rparr>"
      "clientMtxOnce (rb s2) = True" "CustomPool (rb s2) = ?cp'"
    using p2 E2 by simp_all
  from DoRequest_configuration [OF E2]
  have "rb s2 = (rb preset_state)\<lparr>Headers := Headers (rb s2), poolName := poolName (rb s2),
                        Client := Client (rb s2), clientMtxOnce := clientMtxOnce (rb s2),
                        CustomPool := CustomPool (rb s2)\<rparr>"
    by blast
  then have B: "rb s2 = (rb preset_state)\<lparr>
        Client := Some \<lparr>clientTransport = ?tr', clientTimeout = 2000000000, avoidRedirect = True\<rparr>,
        clientMtxOnce := True, CustomPool := ?cp'\<rparr>"
    using q2 by simp
  show ?thesis using E A E2 B by simp
qed

text \<open>
  The claim as written fails: with caching off, a builder whose headers hold
  \<open>If-None-Match\<close> and whose pool name is empty has, after one \<open>GET\<close>, lost the header
  and gained a pool name.
\<close>

theorem DoRequest_changes_headers_counterexample:
  "map_option (\<lambda>(out, s'). (Headers (rb s'), poolName (rb s')))
     (DoRequest env0 1 ''GET'' ''/items'' None [] cond_state)
   = Some ([(''X-Api-Key'', [''k''])], ''pool_main'')
   \<and> Headers (rb cond_state) = [(''If-None-Match'', [''v1'']), (''X-Api-Key'', [''k''])]
   \<and> poolName (rb cond_state) = []"
  by code_simp


section \<open>Storing a response in the cache\<close>

lemma cacheLookup_hit:
  assumes "cacheLookup e verb u s = (Some c, s1)"
  shows "\<exists>c0. cache s u = Some c0 \<and> c = c0\<lparr>cacheHit := True\<rparr> \<and> cache s1 u = Some c"
  using assms
  by (auto simp: cacheLookup_def cache_get_def log_def Let_def split: if_splits option.splits)

lemma cacheMeta_found:
  assumes "cacheMeta e r = Some (found, r')" "ttl r = None" "lastModified r = None"
  shows "found = (ttl r' \<noteq> None \<or> lastModified r' \<noteq> None \<or> etag r' \<noteq> [])"
  using assms
  by (auto simp: cacheMeta_def setTTL_def setLastModified_def setETag_def
      split: option.splits sum.splits if_splits)

lemma cacheMeta_http:
  assumes "cacheMeta e r = Some (found, r')"
  shows "http r' = http r"
  using assms
  by (auto simp: cacheMeta_def setTTL_def setLastModified_def setETag_def
      split: option.splits sum.splits if_splits)

lemma cacheMeta_total: "http r \<noteq> None \<Longrightarrow> \<exists>found r'. cacheMeta e r = Some (found, r')"
  by (auto simp: cacheMeta_def setTTL_def setLastModified_def setETag_def resp_Header_def
      split: option.splits sum.splits if_splits)

lemma decodeBody_fields:
  assumes "decodeBody e b hr body r = (r', p)"
  shows "http r' = http r \<and> ttl r' = ttl r \<and> lastModified r' = lastModified r"
  using assms
  by (auto simp: decodeBody_def Let_def split: if_splits gz_result.splits)

text \<open>
  C3, as the code has it. With caching on and a read verb, when the network answered
  with a status other than 304 and the body was read, \<open>doRequest\<close> hands the Response
  to \<open>setNX\<close> under the canonical URL (the URL before any mock rewriting) if and only if
  a TTL, a \<open>Last-Modified\<close> date or an entity tag was extracted, and \<open>setNX\<close> stores it
  only if the URL has no entry. An entry that the lookup found and kept for
  revalidation is therefore still the entry afterwards: it is never replaced by the
  fresh Response.
\<close>

theorem cache_insert_if_absent:
  assumes ec: "EnableCache (rb s)" and rv: "matchVerbs verb readVerbs"
    and cl: "cacheLookup e verb (BaseURL (rb s) @ url) s = (cr, s1)"
    and nf: "\<forall>c. cr = Some c \<longrightarrow> revalidate c"
    and m: "marshalReqBody e (rb s) bdy = Inr b"
    and cm: "checkMockup e (BaseURL (rb s) @ url) = (u, cu, None)"
    and lp: "retryLoop e fuel verb u b cr cu opt 0 s1 = Some (LoopDone (Inr hr), s3)"
    and bd: "Body hr = Inr rbody" and st: "StatusCode hr \<noteq> 304"
  shows "\<exists>out result s'. doRequest e fuel verb url bdy opt s = Some (out, s')
       \<and> (out = Returns (Some result) \<or> out = Panics)
       \<and> cu = BaseURL (rb s) @ url
       \<and> cache s' = (if (ttl result \<noteq> None \<or> lastModified result \<noteq> None \<or> etag result \<noteq> [])
                          \<and> cache s1 cu = None
                      then (cache s1)(cu \<mapsto> result) else cache s1)
       \<and> (\<forall>c. cr = Some c \<longrightarrow> cache s' cu = Some c)"
proof -
  have rb1: "rb s1 = rb s" using cl by (rule cacheLookup_rb)
  have d1: "dropConditional s1 = s1" using ec rb1 by (simp add: dropConditional_cached)
  have cu: "cu = BaseURL (rb s) @ url"
    using cm by (auto simp: checkMockup_def split: option.splits sum.splits)
  have lf: "loopFrame e s1 s3" using lp by (rule retryLoop_frame)
  have c3: "cache s3 = cache s1" using lf unfolding loopFrame_def by simp
  have rb3: "rb s3 = (rb s1)\<lparr>poolName := poolName (rb s3), Client := Client (rb s3),
        clientMtxOnce := clientMtxOnce (rb s3), CustomPool := CustomPool (rb s3)\<rparr>"
    using lf unfolding loopFrame_def by blast
  have ec3: "EnableCache (rb s3)" by (subst rb3) (simp add: rb1 ec)
  have dr: "doRequest e fuel verb url bdy opt s = Some (respond e verb cu cr hr s3)"
    by (rule doRequest_network[where ?s1.0=s1 and b=b and u=u])
       (simp_all add: cl nf d1 rb1 m cm lp)
  obtain r1 p where db: "decodeBody e (rb s3) hr rbody (new_Response\<lparr>http := Some hr\<rparr>) = (r1, p)"
    by (cases "decodeBody e (rb s3) hr rbody (new_Response\<lparr>http := Some hr\<rparr>)") auto
  have f1: "http r1 = Some hr" "ttl r1 = None" "lastModified r1 = None"
    using decodeBody_fields[OF db] by (simp_all add: new_Response_def)
  obtain found result where cmeta: "cacheMeta e r1 = Some (found, result)"
    using cacheMeta_total[of r1 e] f1 by auto
  have fnd: "found = (ttl result \<noteq> None \<or> lastModified result \<noteq> None \<or> etag result \<noteq> [])"
    using cacheMeta_found[OF cmeta f1(2,3)] .
  define s' where "s' = (if found then cache_setNX cu result s3 else s3)"
  define out where "out = (if p then Panics else Returns (Some result))"
  have rs: "respond e verb cu cr hr s3 = (out, s')"
    using bd st db cmeta ec3 rv by (simp add: respond_def s'_def out_def)
  have cs: "cache s' = (if found \<and> cache s1 cu = None then (cache s1)(cu \<mapsto> result) else cache s1)"
    unfolding s'_def by (auto simp: cache_setNX_def log_def Let_def c3 split: option.splits)
  have keep: "\<forall>c. cr = Some c \<longrightarrow> cache s' cu = Some c"
  proof (intro allI impI)
    fix c assume "cr = Some c"
    with cl have "cache s1 cu = Some c" using cacheLookup_hit cu by blast
    then show "cache s' cu = Some c" using cs by simp
  qed
  have "out = Returns (Some result) \<or> out = Panics" by (simp add: out_def)
  then show ?thesis using dr rs cu cs keep fnd by auto
qed

theorem cache_insert_if_absent_witness:
  "map_option (\<lambda>(out, s'). cache s' ''http://api/items'')
     (doRequest env_v2 1 ''GET'' ''/items'' None zero_reqOptions stale_state)
   = Some (Some (cached_v1\<lparr>cacheHit := True\<rparr>))
   \<and> map_option (\<lambda>(out, s'). cache s' ''http://api/items'')
     (doRequest env_v2 1 ''GET'' ''/items'' None zero_reqOptions caching_state)
   = Some (Some (new_Response\<lparr>http := Some fresh_v2, byteBody := ''new'', etag := ''v2'',
                                revalidate := True\<rparr>))"
proof -
  let ?u = "''http://api/items''"
  let ?R = "new_Response\<lparr>http := Some fresh_v2, byteBody := ''new'', etag := ''v2'',
                          revalidate := True\<rparr>"
  have rv: "matchVerbs ''GET'' readVerbs" by (simp add: readVerbs_def)
  have bd: "Body fresh_v2 = Inr ''new''" and st: "StatusCode fresh_v2 \<noteq> 304"
    by (simp_all add: fresh_v2_def)
  \<comment> \<open>a stale entry is present\<close>
  define s1 where "s1 = snd (cacheLookup env_v2 ''GET'' (BaseURL (rb stale_state) @ ''/items'') stale_state)"
  have ec: "EnableCache (rb stale_state)" by code_simp
  have "fst (cacheLookup env_v2 ''GET'' (BaseURL (rb stale_state) @ ''/items'') stale_state)
          = Some (cached_v1\<lparr>cacheHit := True\<rparr>)"
    by code_simp
  then have cl: "cacheLookup env_v2 ''GET'' (BaseURL (rb stale_state) @ ''/items'') stale_state
          = (Some (cached_v1\<lparr>cacheHit := True\<rparr>), s1)"
    unfolding s1_def by (metis prod.collapse)
  have nf: "\<forall>c. Some (cached_v1\<lparr>cacheHit := True\<rparr>) = Some c \<longrightarrow> revalidate c"
    by (simp add: cached_v1_def)
  have m: "marshalReqBody env_v2 (rb stale_state) None = Inr []"
    by (simp add: marshalReqBody_def)
  have cm: "checkMockup env_v2 (BaseURL (rb stale_state) @ ''/items'') = (?u, ?u, None)"
    by code_simp
  have "map_option fst (retryLoop env_v2 1 ''GET'' ?u [] (Some (cached_v1\<lparr>cacheHit := True\<rparr>)) ?u
            zero_reqOptions 0
            (snd (cacheLookup env_v2 ''GET'' (BaseURL (rb stale_state) @ ''/items'') stale_state)))
          = Some (LoopDone (Inr fresh_v2))"
    by code_simp
  then obtain s3 where lp: "retryLoop env_v2 1 ''GET'' ?u [] (Some (cached_v1\<lparr>cacheHit := True\<rparr>)) ?u
            zero_reqOptions 0 s1 = Some (LoopDone (Inr fresh_v2), s3)"
    unfolding s1_def by (auto simp: map_option_case split: option.splits)
  from cache_insert_if_absent [OF ec rv cl nf m cm lp bd st]
  have 1: "map_option (\<lambda>(out, s'). cache s' ?u)
     (doRequest env_v2 1 ''GET'' ''/items'' None zero_reqOptions stale_state)
   = Some (Some (cached_v1\<lparr>cacheHit := True\<rparr>))"
    by auto
  \<comment> \<open>nothing is cached\<close>
  define t1 where "t1 = snd (cacheLookup env_v2 ''GET'' (BaseURL (rb caching_state) @ ''/items'') caching_state)"
  have ec': "EnableCache (rb caching_state)" by code_simp
  have "fst (cacheLookup env_v2 ''GET'' (BaseURL (rb caching_state) @ ''/items'') caching_state) = None"
    by code_simp
  then have cl': "cacheLookup env_v2 ''GET'' (BaseURL (rb caching_state) @ ''/items'') caching_state
          = (None, t1)"
    unfolding t1_def by (metis prod.collapse)
  have nf': "\<forall>c. (None :: Response option) = Some c \<longrightarrow> revalidate c" by simp
  have m': "marshalReqBody env_v2 (rb caching_state) None = Inr []"
    by (simp add: marshalReqBody_def)
  have cm': "checkMockup env_v2 (BaseURL (rb caching_state) @ ''/items'') = (?u, ?u, None)"
    by code_simp
  have "map_option fst (retryLoop env_v2 1 ''GET'' ?u [] None ?u zero_reqOptions 0
            (snd (cacheLookup env_v2 ''GET'' (BaseURL (rb caching_state) @ ''/items'') caching_state)))
          = Some (LoopDone (Inr fresh_v2))"
    by code_simp
  then obtain t3 where lp': "retryLoop env_v2 1 ''GET'' ?u [] None ?u zero_reqOptions 0 t1
            = Some (LoopDone (Inr fresh_v2), t3)"
    unfolding t1_def by (auto simp: map_option_case split: option.splits)
  have absent: "cache t1 ?u = None" unfolding t1_def by code_simp
  have out: "map_option fst (doRequest env_v2 1 ''GET'' ''/items'' None zero_reqOptions caching_state)
          = Some (Returns (Some ?R))"
    by code_simp
  have tag: "etag ?R \<noteq> []" by simp
  from cache_insert_if_absent [OF ec' rv cl' nf' m' cm' lp' bd st]
  obtain out' result s' where r:
      "doRequest env_v2 1 ''GET'' ''/items'' None zero_reqOptions caching_state = Some (out', s')"
      "out' = Returns (Some result) \<or> out' = Panics"
      "cache s' = (if (ttl result \<noteq> None \<or> lastModified result \<noteq> None \<or> etag result \<noteq> [])
                          \<and> cache t1 ?u = None
                      then (cache t1)(?u \<mapsto> result) else cache t1)"
    by blast
  have "result = ?R" using r(1,2) out by auto
  then have "cache s' ?u = Some ?R" using r(3) absent tag by simp
  then have 2: "map_option (\<lambda>(out, s'). cache s' ?u)
     (doRequest env_v2 1 ''GET'' ''/items'' None zero_reqOptions caching_state) = Some (Some ?R)"
    using r(1) by simp
  show ?thesis using 1 2 by simp
qed

text \<open>
  The claim as written fails in its last clause: a stale entry with entity tag \<open>v1\<close>,
  kept for revalidation, is still the cached entry after the server answered \<open>200\<close>
  with the new tag \<open>v2\<close> and a new body; the caller gets the fresh Response.
\<close>

theorem stale_entry_not_replaced_counterexample:
  "map_option (\<lambda>(out, s'). (out, map_option etag (cache s' ''http://api/items'')))
     (DoRequest env_v2 1 ''GET'' ''/items'' None [] stale_state)
   = Some (Returns (Some (new_Response\<lparr>http := Some fresh_v2, byteBody := ''new'', etag := ''v2'',
                                revalidate := True\<rparr>)),
           Some ''v1'')
   \<and> map_option etag (cache stale_state ''http://api/items'') = Some ''v1''
   \<and> map_option revalidate (cache stale_state ''http://api/items'') = Some True"
  by code_simp

section \<open>304 Not Modified\<close>

text \<open>
  C4. With caching on, when the lookup found a cached Response for the URL (one kept
  for revalidation, whose embedded response is present, as it is in every Response
  \<open>doRequest\<close> stores), the breaker, if any, admits the call, and the retry loop ends
  with status 304 and a readable body, \<open>DoRequest\<close> returns that cached Response: the
  entry of the cache, marked as a cache hit, with the body it was cached with.
\<close>

theorem not_modified_returns_cached:
  assumes ec: "EnableCache (rb s)"
    and adm: "\<forall>cb. circuitBreaker (rb s) = Some cb \<longrightarrow> snd (Allow cb) = None"
    and s0: "s0 = (if circuitBreaker (rb s) = None then s else log BreakerAllow s)"
    and cl: "cacheLookup e verb (BaseURL (rb s) @ url) s0 = (Some c, s1)"
    and rv: "revalidate c" and ht: "http c \<noteq> None"
    and m: "marshalReqBody e (rb s) bdy = Inr b"
    and cm: "checkMockup e (BaseURL (rb s) @ url) = (u, cu, None)"
    and lp: "retryLoop e fuel verb u b (Some c) cu (foldl (\<lambda>ro opt. opt ro) zero_reqOptions opts) 0 s1
               = Some (LoopDone (Inr hr), s3)"
    and st: "StatusCode hr = 304" and bd: "Body hr = Inr rbody"
  shows "\<exists>s' c0. DoRequest e fuel verb url bdy opts s = Some (Returns (Some c), s')
       \<and> cache s (BaseURL (rb s) @ url) = Some c0
       \<and> c = c0\<lparr>cacheHit := True\<rparr> \<and> byteBody c = byteBody c0"
proof -
  let ?opt = "foldl (\<lambda>ro opt. opt ro) zero_reqOptions opts"
  have rb0: "rb s0 = rb s" and c0: "cache s0 = cache s" by (simp_all add: s0 log_def)
  have rb1: "rb s1 = rb s" using cl rb0 cacheLookup_rb by metis
  have d1: "dropConditional s1 = s1" using ec rb1 by (simp add: dropConditional_cached)
  have lf: "loopFrame e s1 s3" using lp by (rule retryLoop_frame)
  have rb3: "rb s3 = (rb s1)\<lparr>poolName := poolName (rb s3), Client := Client (rb s3),
        clientMtxOnce := clientMtxOnce (rb s3), CustomPool := CustomPool (rb s3)\<rparr>"
    using lf unfolding loopFrame_def by blast
  have ec3: "EnableCache (rb s3)" by (subst rb3) (simp add: rb1 ec)
  have "doRequest e fuel verb url bdy ?opt s0 = Some (respond e verb cu (Some c) hr s3)"
    by (rule doRequest_network[where ?s1.0=s1 and b=b and u=u])
       (simp_all add: rb0 cl rv d1 rb1 m cm lp)
  moreover have "respond e verb cu (Some c) hr s3 = (Returns (Some c), s3)"
    using bd st ec3 by (simp add: respond_def)
  ultimately have dr: "doRequest e fuel verb url bdy ?opt s0 = Some (Returns (Some c), s3)"
    by simp
  obtain cc where cc: "cache s (BaseURL (rb s) @ url) = Some cc" "c = cc\<lparr>cacheHit := True\<rparr>"
    using cacheLookup_hit[OF cl] c0 by auto
  have bb: "byteBody c = byteBody cc" using cc by simp
  have "\<exists>s'. DoRequest e fuel verb url bdy opts s = Some (Returns (Some c), s')"
  proof (cases "circuitBreaker (rb s)")
    case None
    then show ?thesis using dr s0 by (simp add: DoRequest_def Let_def)
  next
    case (Some cb)
    obtain a where al: "Allow cb = (a, None)" using adm Some by (cases "Allow cb") auto
    have s0': "s0 = log BreakerAllow s" using s0 Some by simp
    obtain hc where hc: "http c = Some hc" using ht by auto
    show ?thesis
      using Some al dr s0' hc
      by (cases a; cases "Err c") (auto simp: DoRequest_def Let_def callAfter_def)
  qed
  then show ?thesis using cc bb by blast
qed

theorem not_modified_returns_cached_witness:
  "map_option fst (DoRequest env304 1 ''GET'' ''/items'' None [] stale_state)
     = Some (Returns (Some (cached_v1\<lparr>cacheHit := True\<rparr>)))
   \<and> map_option fst (DoRequest env304 1 ''GET'' ''/items'' None [] stale_breaker_state)
     = Some (Returns (Some (cached_v1\<lparr>cacheHit := True\<rparr>)))
   \<and> byteBody (cached_v1\<lparr>cacheHit := True\<rparr>) = byteBody cached_v1"
proof -
  let ?u = "''http://api/items''"
  let ?c = "cached_v1\<lparr>cacheHit := True\<rparr>"
  have rv: "revalidate ?c" and ht: "http ?c \<noteq> None" by (simp_all add: cached_v1_def)
  have st: "StatusCode not_modified = 304" and bd: "Body not_modified = Inr []"
    by (simp_all add: not_modified_def)
  \<comment> \<open>without a breaker\<close>
  define s1 where "s1 = snd (cacheLookup env304 ''GET'' (BaseURL (rb stale_state) @ ''/items'') stale_state)"
  have ec: "EnableCache (rb stale_state)" by code_simp
  have nb: "circuitBreaker (rb stale_state) = None" by code_simp
  have adm: "\<forall>cb. circuitBreaker (rb stale_state) = Some cb \<longrightarrow> snd (Allow cb) = None"
    using nb by simp
  have s0: "stale_state = (if circuitBreaker (rb stale_state) = None then stale_state
                           else log BreakerAllow stale_state)"
    using nb by simp
  have "fst (cacheLookup env304 ''GET'' (BaseURL (rb stale_state) @ ''/items'') stale_state) = Some ?c"
    by code_simp
  then have cl: "cacheLookup env304 ''GET'' (BaseURL (rb stale_state) @ ''/items'') stale_state
          = (Some ?c, s1)"
    unfolding s1_def by (metis prod.collapse)
  have m: "marshalReqBody env304 (rb stale_state) None = Inr []"
    by (simp add: marshalReqBody_def)
  have cm: "checkMockup env304 (BaseURL (rb stale_state) @ ''/items'') = (?u, ?u, None)"
    by code_simp
  have "map_option fst (retryLoop env304 1 ''GET'' ?u [] (Some ?c) ?u
            (foldl (\<lambda>ro opt. opt ro) zero_reqOptions []) 0
            (snd (cacheLookup env304 ''GET'' (BaseURL (rb stale_state) @ ''/items'') stale_state)))
          = Some (LoopDone (Inr not_modified))"
    by code_simp
  then obtain s3 where lp: "retryLoop env304 1 ''GET'' ?u [] (Some ?c) ?u
            (foldl (\<lambda>ro opt. opt ro) zero_reqOptions []) 0 s1 = Some (LoopDone (Inr not_modified), s3)"
    unfolding s1_def by (auto simp: map_option_case split: option.splits)
  from not_modified_returns_cached [OF ec adm s0 cl rv ht m cm lp st bd]
  have 1: "map_option fst (DoRequest env304 1 ''GET'' ''/items'' None [] stale_state)
     = Some (Returns (Some ?c))"
    by auto
  \<comment> \<open>with a breaker that admits the call\<close>
  let ?t0 = "log BreakerAllow stale_breaker_state"
  define t1 where "t1 = snd (cacheLookup env304 ''GET'' (BaseURL (rb stale_breaker_state) @ ''/items'')
      (log BreakerAllow stale_breaker_state))"
  have ec': "EnableCache (rb stale_breaker_state)" by code_simp
  have br: "circuitBreaker (rb stale_breaker_state) = Some closed_breaker" by code_simp
  have adm': "\<forall>cb. circuitBreaker (rb stale_breaker_state) = Some cb \<longrightarrow> snd (Allow cb) = None"
    using br by (simp add: closed_breaker_def)
  have t0: "?t0 = (if circuitBreaker (rb stale_breaker_state) = None then stale_breaker_state
                           else log BreakerAllow stale_breaker_state)"
    using br by simp
  have "fst (cacheLookup env304 ''GET'' (BaseURL (rb stale_breaker_state) @ ''/items'') ?t0) = Some ?c"
    by code_simp
  then have cl': "cacheLookup env304 ''GET'' (BaseURL (rb stale_breaker_state) @ ''/items'') ?t0
          = (Some ?c, t1)"
    unfolding t1_def by (metis prod.collapse)
  have m': "marshalReqBody env304 (rb stale_breaker_state) None = Inr []"
    by (simp add: marshalReqBody_def)
  have cm': "checkMockup env304 (BaseURL (rb stale_breaker_state) @ ''/items'') = (?u, ?u, None)"
    by code_simp
  have "map_option fst (retryLoop env304 1 ''GET'' ?u [] (Some ?c) ?u
            (foldl (\<lambda>ro opt. opt ro) zero_reqOptions []) 0
            (snd (cacheLookup env304 ''GET'' (BaseURL (rb stale_breaker_state) @ ''/items'')
               (log BreakerAllow stale_breaker_state))))
          = Some (LoopDone (Inr not_modified))"
    by code_simp
  then obtain t3 where lp': "retryLoop env304 1 ''GET'' ?u [] (Some ?c) ?u
            (foldl (\<lambda>ro opt. opt ro) zero_reqOptions []) 0 t1 = Some (LoopDone (Inr not_modified), t3)"
    unfolding t1_def by (auto simp: map_option_case split: option.splits)
  from not_modified_returns_cached [OF ec' adm' t0 cl' rv ht m' cm' lp' st bd]
  have 2: "map_option fst (DoRequest env304 1 ''GET'' ''/items'' None [] stale_breaker_state)
     = Some (Returns (Some ?c))"
    by auto
  show ?thesis using 1 2 by simp
qed

section \<open>Nil Responses\<close>

text \<open>
  C5. The claim does not hold of the code. Every failure before or in the retry loop
  returns the fresh, non-nil \<open>result\<close> with its error field set, so no local failure
  gives a nil Response. A nil Response comes from the 304 branch instead: with caching
  on and no cached entry found (\<open>cacheResp\<close> nil), a 304 from the server makes
  \<open>doRequest\<close> return \<open>cacheResp\<close>, that is nil. Without a breaker \<open>DoRequest\<close> returns
  this nil; with a breaker that admitted the call it dereferences it and panics.
\<close>

theorem nil_response_on_304_without_entry:
  "map_option fst (DoRequest env304 1 ''GET'' ''/items'' None [] miss_state) = Some (Returns None)
   \<and> map_option fst (DoRequest env304 1 ''GET'' ''/items'' None []
        (with_rb (\<lambda>b. b\<lparr>circuitBreaker := Some closed_breaker\<rparr>) miss_state)) = Some Panics"
  by code_simp

text \<open>A nil result of \<open>doRequest\<close> arises in no other way: the lookup found nothing.\<close>

lemma respond_nil:
  assumes "respond e verb cu cr hr s = (Returns None, s')"
  shows "cr = None \<and> StatusCode hr = 304 \<and> EnableCache (rb s)"
  using assms
  by (auto simp: respond_def split: sum.splits if_splits prod.splits option.splits)

lemma doRequest_nil:
  assumes "doRequest e fuel verb url bdy opt s = Some (Returns None, s')"
  shows "fst (cacheLookup e verb (BaseURL (rb s) @ url) s) = None"
proof -
  obtain cr s1 where cl: "cacheLookup e verb (BaseURL (rb s) @ url) s = (cr, s1)"
    by (cases "cacheLookup e verb (BaseURL (rb s) @ url) s") auto
  show ?thesis
  proof (cases cr)
    case None
    then show ?thesis using cl by simp
  next
    case (Some c)
    have "False"
      using assms cl Some
      by (auto simp: doRequest_def Let_def split: if_splits sum.splits prod.splits option.splits
          loop_result.splits dest: respond_nil)
    then show ?thesis ..
  qed
qed

section \<open>Retrying with and without a breaker\<close>

text \<open>
  C6, as the code has it. When the strategy asks for a retry after an attempt: with a
  breaker configured the loop goes on directly (\<open>retryFunc\<close> drains and sleeps, the
  limiter is not consulted); without a breaker the limiter is consulted, and the loop
  goes on if it admits the retry; if it rejects, the loop ends with the current answer,
  and the \<open>go.api_call.retry_break\<close> metric is recorded unless the builder's
  \<open>MetricsConfig\<close> disables API call metrics.
\<close>

theorem retry_paths:
  assumes nr: "newRequestErr e verb u = None"
    and at: "attempt e verb u b cr cu opt k s = Inr (rq, res, s1)"
    and rs: "RetryStrategy (rb s1) = Some sr" and yes: "sr rq res k = (True, delay)"
  shows "(circuitBreaker (rb s1) \<noteq> None \<longrightarrow>
            retryLoop e (Suc fuel) verb u b cr cu opt k s
              = retryLoop e fuel verb u b cr cu opt (Suc k) (retryFunc res delay s1))
       \<and> (circuitBreaker (rb s1) = None \<and> limiterAdmits e k \<longrightarrow>
            retryLoop e (Suc fuel) verb u b cr cu opt k s
              = retryLoop e fuel verb u b cr cu opt (Suc k)
                  (retryFunc res delay (log LimiterAction s1)))
       \<and> (circuitBreaker (rb s1) = None \<and> \<not> limiterAdmits e k \<longrightarrow>
            (\<exists>s'. retryLoop e (Suc fuel) verb u b cr cu opt k s = Some (LoopDone res, s')
               \<and> trace s' = trace s1 @ LimiterAction #
                    (if DisableApiCallMetrics (MetricsConfig (rb s1)) then []
                     else [SimpleMetric ''go.api_call.retry_break''
                             [''target_id:'' @ TargetId (MetricsConfig (rb s1))]])))
       \<and> LimiterAction \<notin> set (drop (length (trace s1)) (trace (retryFunc res delay s1)))"
  using assms
  by (cases res) (auto simp: retryBreak_def retryFunc_def log_def limiterAction_def)

theorem retry_paths_witness:
  "map_option (\<lambda>(lr, s'). (lr, control (trace s')))
     (retryLoop env0 (Suc (Suc 0)) ''GET'' ''http://api/items'' [] None ''http://api/items''
        zero_reqOptions 0 retry_breaker_state)
   = Some (LoopDone (Inr ok200), [DrainBody, Sleep 1000000])
   \<and> map_option (\<lambda>(lr, s'). (lr, control (trace s')))
     (retryLoop env_admit (Suc (Suc 0)) ''GET'' ''http://api/items'' [] None ''http://api/items''
        zero_reqOptions 0 retry_state)
   = Some (LoopDone (Inr ok200), [LimiterAction, DrainBody, Sleep 1000000])
   \<and> map_option (\<lambda>(lr, s'). (lr, control (trace s')))
     (retryLoop env0 (Suc 0) ''GET'' ''http://api/items'' [] None ''http://api/items''
        zero_reqOptions 0 retry_metrics_state)
   = Some (LoopDone (Inr ok200), [ApiCallMetric ''t'' (Some 200) False, LimiterAction,
        SimpleMetric ''go.api_call.retry_break'' [''target_id:t'']])"
proof -
  let ?u = "''http://api/items''"
  \<comment> \<open>with a breaker the retry is direct\<close>
  let ?A = "projr (attempt env0 ''GET'' ?u [] None ?u zero_reqOptions 0 retry_breaker_state)"
  have nr: "newRequestErr env0 ''GET'' ?u = None" by (simp add: env0_def)
  have "\<not> isl (attempt env0 ''GET'' ?u [] None ?u zero_reqOptions 0 retry_breaker_state)" by code_simp
  then have at: "attempt env0 ''GET'' ?u [] None ?u zero_reqOptions 0 retry_breaker_state
      = Inr (fst ?A, fst (snd ?A), snd (snd ?A))"
    by (metis sum.collapse(2) prod.collapse)
  have rs: "RetryStrategy (rb (snd (snd ?A))) = Some retry_first"
    unfolding attempt_rb(1)[OF at]
    by (simp add: retry_breaker_state_def retry_state_def with_rb_def)
  have yes: "retry_first (fst ?A) (fst (snd ?A)) 0 = (True, 1000000)"
    by (simp add: retry_first_def)
  have cb: "circuitBreaker (rb (snd (snd ?A))) \<noteq> None"
    unfolding attempt_rb(2)[OF at]
    by (simp add: retry_breaker_state_def retry_state_def with_rb_def)
  have "retryLoop env0 (Suc (Suc 0)) ''GET'' ?u [] None ?u zero_reqOptions 0 retry_breaker_state
          = retryLoop env0 (Suc 0) ''GET'' ?u [] None ?u zero_reqOptions (Suc 0)
              (retryFunc (fst (snd ?A)) 1000000 (snd (snd ?A)))"
    using retry_paths [OF nr at rs yes, of "Suc 0"] cb by blast
  moreover have "map_option (\<lambda>(lr, s'). (lr, control (trace s')))
       (retryLoop env0 (Suc 0) ''GET'' ?u [] None ?u zero_reqOptions (Suc 0)
              (retryFunc (fst (snd ?A)) 1000000 (snd (snd ?A))))
      = Some (LoopDone (Inr ok200), [DrainBody, Sleep 1000000])"
    by code_simp
  ultimately have 1: "map_option (\<lambda>(lr, s'). (lr, control (trace s')))
     (retryLoop env0 (Suc (Suc 0)) ''GET'' ?u [] None ?u zero_reqOptions 0 retry_breaker_state)
   = Some (LoopDone (Inr ok200), [DrainBody, Sleep 1000000])"
    by simp
  \<comment> \<open>without a breaker the limiter is asked, and admits\<close>
  let ?B = "projr (attempt env_admit ''GET'' ?u [] None ?u zero_reqOptions 0 retry_state)"
  have nr': "newRequestErr env_admit ''GET'' ?u = None" by (simp add: env_admit_def env0_def)
  have "\<not> isl (attempt env_admit ''GET'' ?u [] None ?u zero_reqOptions 0 retry_state)" by code_simp
  then have at': "attempt env_admit ''GET'' ?u [] None ?u zero_reqOptions 0 retry_state
      = Inr (fst ?B, fst (snd ?B), snd (snd ?B))"
    by (metis sum.collapse(2) prod.collapse)
  have rs': "RetryStrategy (rb (snd (snd ?B))) = Some retry_first"
    unfolding attempt_rb(1)[OF at'] by (simp add: retry_state_def with_rb_def)
  have yes': "retry_first (fst ?B) (fst (snd ?B)) 0 = (True, 1000000)"
    by (simp add: retry_first_def)
  have cb': "circuitBreaker (rb (snd (snd ?B))) = None"
    unfolding attempt_rb(2)[OF at']
    by (simp add: retry_state_def with_rb_def state0_def rb0_def)
  have adm: "limiterAdmits env_admit 0" by (simp add: env_admit_def)
  have "retryLoop env_admit (Suc (Suc 0)) ''GET'' ?u [] None ?u zero_reqOptions 0 retry_state
          = retryLoop env_admit (Suc 0) ''GET'' ?u [] None ?u zero_reqOptions (Suc 0)
              (retryFunc (fst (snd ?B)) 1000000 (log LimiterAction (snd (snd ?B))))"
    using retry_paths [OF nr' at' rs' yes', of "Suc 0"] cb' adm by blast
  moreover have "map_option (\<lambda>(lr, s'). (lr, control (trace s')))
       (retryLoop env_admit (Suc 0) ''GET'' ?u [] None ?u zero_reqOptions (Suc 0)
              (retryFunc (fst (snd ?B)) 1000000 (log LimiterAction (snd (snd ?B)))))
      = Some (LoopDone (Inr ok200), [LimiterAction, DrainBody, Sleep 1000000])"
    by code_simp
  ultimately have 2: "map_option (\<lambda>(lr, s'). (lr, control (trace s')))
     (retryLoop env_admit (Suc (Suc 0)) ''GET'' ?u [] None ?u zero_reqOptions 0 retry_state)
   = Some (LoopDone (Inr ok200), [LimiterAction, DrainBody, Sleep 1000000])"
    by simp
  \<comment> \<open>without a breaker the limiter is asked, and rejects\<close>
  let ?C = "projr (attempt env0 ''GET'' ?u [] None ?u zero_reqOptions 0 retry_metrics_state)"
  have "\<not> isl (attempt env0 ''GET'' ?u [] None ?u zero_reqOptions 0 retry_metrics_state)" by code_simp
  then have at'': "attempt env0 ''GET'' ?u [] None ?u zero_reqOptions 0 retry_metrics_state
      = Inr (fst ?C, fst (snd ?C), snd (snd ?C))"
    by (metis sum.collapse(2) prod.collapse)
  have rs'': "RetryStrategy (rb (snd (snd ?C))) = Some retry_first"
    unfolding attempt_rb(1)[OF at'']
    by (simp add: retry_metrics_state_def retry_state_def with_rb_def)
  have yes'': "retry_first (fst ?C) (fst (snd ?C)) 0 = (True, 1000000)"
    by (simp add: retry_first_def)
  have cb'': "circuitBreaker (rb (snd (snd ?C))) = None"
    unfolding attempt_rb(2)[OF at'']
    by (simp add: retry_metrics_state_def retry_state_def with_rb_def state0_def rb0_def)
  have mc: "MetricsConfig (rb (snd (snd ?C))) = \<lparr>TargetId = ''t'',
      DisableApiCallMetrics = False, DisableHttpConnectionsMetrics = True\<rparr>"
    unfolding attempt_rb(3)[OF at'']
    by (simp add: retry_metrics_state_def retry_state_def with_rb_def)
  have rej: "\<not> limiterAdmits env0 0" by (simp add: env0_def)
  have res: "fst (snd ?C) = Inr ok200" by code_simp
  have tr: "control (trace (snd (snd ?C))) = [ApiCallMetric ''t'' (Some 200) False]" by code_simp
  obtain s' where s': "retryLoop env0 (Suc 0) ''GET'' ?u [] None ?u zero_reqOptions 0 retry_metrics_state
          = Some (LoopDone (fst (snd ?C)), s')"
      "trace s' = trace (snd (snd ?C)) @ LimiterAction #
                    (if DisableApiCallMetrics (MetricsConfig (rb (snd (snd ?C)))) then []
                     else [SimpleMetric ''go.api_call.retry_break''
                             [''target_id:'' @ TargetId (MetricsConfig (rb (snd (snd ?C))))]])"
    using retry_paths [OF nr at'' rs'' yes'', of 0] cb'' rej by blast
  have "control (trace s') = [ApiCallMetric ''t'' (Some 200) False, LimiterAction,
        SimpleMetric ''go.api_call.retry_break'' [''target_id:t'']]"
    using tr unfolding s'(2) mc by (simp add: control_def isNetCall_def)
  then have 3: "map_option (\<lambda>(lr, s'). (lr, control (trace s')))
     (retryLoop env0 (Suc 0) ''GET'' ?u [] None ?u zero_reqOptions 0 retry_metrics_state)
   = Some (LoopDone (Inr ok200), [ApiCallMetric ''t'' (Some 200) False, LimiterAction,
        SimpleMetric ''go.api_call.retry_break'' [''target_id:t'']])"
    unfolding s'(1) res by simp
  show ?thesis using 1 2 3 by simp
qed

text \<open>
  The claim as written fails where API call metrics are disabled: the strategy asks
  for a retry, no breaker is configured, the limiter rejects, and the loop ends without
  recording any metric.
\<close>

theorem retry_break_not_recorded_counterexample:
  "map_option (\<lambda>(out, s'). control (trace s'))
     (DoRequest env0 1 ''GET'' ''/items'' None [] retry_state) = Some [LimiterAction]
   \<and> circuitBreaker (rb retry_state) = None
   \<and> DisableApiCallMetrics (MetricsConfig (rb retry_state))
   \<and> \<not> limiterAdmits env0 0
   \<and> fst (retry_first \<lparr>Method = ''GET'', URL = ''http://api/items'', reqBody = [], reqHeader = []\<rparr>
             (Inr ok200) 0)"
  by code_simp

text \<open>With a breaker configured, no round of the loop reaches the limiter or the metric.\<close>

lemma forward_fold_direct:
  "\<exists>evs. snd (foldl (forwardStep fwd) acc kvs) = snd acc @ evs \<and> list_all directEvent evs"
proof (induction kvs arbitrary: acc)
  case Nil
  then show ?case by simp
next
  case (Cons kv kvs)
  obtain evs where e: "snd (foldl (forwardStep fwd) (forwardStep fwd acc kv) kvs)
        = snd (forwardStep fwd acc kv) @ evs" "list_all directEvent evs"
    using Cons.IH by blast
  have "\<exists>e1. snd (forwardStep fwd acc kv) = snd acc @ e1 \<and> list_all directEvent e1"
    by (simp add: forwardStep_def Let_def directEvent_def)
  then show ?case using e by auto
qed

lemma attempt_direct:
  assumes "attempt e verb u b cr cu opt k s = Inr (rq, res, s')"
  shows "\<exists>evs. trace s' = trace s @ evs \<and> list_all directEvent evs"
proof -
  have fw: "\<And>h. list_all directEvent (snd (foldl (forwardStep (optForwarded opt)) (h, []) (optForwarded opt)))"
    using forward_fold_direct[of "optForwarded opt" "(_, [])" "optForwarded opt"] by auto
  show ?thesis
    using assms fw
    by (auto simp: attempt_def Let_def namePool_def sendRestMetrics_def getClient_def log_def
        directEvent_def split: if_splits option.splits)
qed

lemma attempt_panic_direct:
  assumes "attempt e verb u b cr cu opt k s = Inl s'"
  shows "\<exists>evs. trace s' = trace s @ evs \<and> list_all directEvent evs"
proof -
  have fw: "\<And>h. list_all directEvent (snd (foldl (forwardStep (optForwarded opt)) (h, []) (optForwarded opt)))"
    using forward_fold_direct[of "optForwarded opt" "(_, [])" "optForwarded opt"] by auto
  show ?thesis
    using assms fw
    by (auto simp: attempt_def Let_def namePool_def sendRestMetrics_def getClient_def log_def
        directEvent_def split: if_splits option.splits)
qed

lemma retryLoop_direct:
  assumes "circuitBreaker (rb s) \<noteq> None"
    and "retryLoop e fuel verb u b cr cu opt k s = Some (lr, s')"
  shows "\<exists>evs. trace s' = trace s @ evs \<and> list_all directEvent evs"
  using assms
proof (induction fuel arbitrary: k s)
  case 0
  then show ?case by simp
next
  case (Suc fuel)
  show ?case
  proof (cases "newRequestErr e verb u")
    case (Some err)
    with Suc.prems show ?thesis by simp
  next
    case None
    show ?thesis
    proof (cases "attempt e verb u b cr cu opt k s")
      case (Inl sp)
      with Suc.prems(2) None have "s' = sp" by simp
      then show ?thesis using attempt_panic_direct[OF Inl] by simp
    next
      case (Inr t)
      then obtain rq res s1 where at: "attempt e verb u b cr cu opt k s = Inr (rq, res, s1)"
        by (cases t) auto
      obtain e1 where e1: "trace s1 = trace s @ e1" "list_all directEvent e1"
        using attempt_direct[OF at] by blast
      have r1: "rb s1 = (rb s)\<lparr>poolName := poolName (rb s1), Client := Client (rb s1),
          clientMtxOnce := clientMtxOnce (rb s1), CustomPool := CustomPool (rb s1)\<rparr>"
        using attempt_frame[OF at] unfolding loopFrame_def by blast
      have cb1: "circuitBreaker (rb s1) \<noteq> None" by (subst r1) (simp add: Suc.prems(1))
      show ?thesis
      proof (cases "RetryStrategy (rb s1)")
        case None': None
        from Suc.prems(2) have "s' = s1" by (simp add: None at None')
        then show ?thesis using e1 by simp
      next
        case (Some sr)
        obtain retry delay where sr: "sr rq res k = (retry, delay)" by (cases "sr rq res k") auto
        show ?thesis
        proof (cases retry)
          case False
          from Suc.prems(2) have "s' = s1" by (simp add: None at Some sr False)
          then show ?thesis using e1 by simp
        next
          case True
          from Suc.prems(2)
          have lp: "retryLoop e fuel verb u b cr cu opt (Suc k) (retryFunc res delay s1) = Some (lr, s')"
            using cb1 by (simp add: None at Some sr True)
          have cb2: "circuitBreaker (rb (retryFunc res delay s1)) \<noteq> None"
            using cb1 by (cases res) (simp_all add: retryFunc_def log_def)
          obtain e2 where e2: "trace s' = trace (retryFunc res delay s1) @ e2" "list_all directEvent e2"
            using Suc.IH[OF cb2 lp] by blast
          obtain e3 where e3: "trace (retryFunc res delay s1) = trace s1 @ e3" "list_all directEvent e3"
            by (cases res) (simp_all add: retryFunc_def log_def directEvent_def)
          have "trace s' = trace s @ (e1 @ e3 @ e2)" "list_all directEvent (e1 @ e3 @ e2)"
            using e1 e2 e3 by simp_all
          then show ?thesis by blast
        qed
      qed
    qed
  qed
qed


section \<open>Futures\<close>

lemma engine_call: "list_all engineEvent evs \<Longrightarrow> list_all callEvent evs"
  by (induction evs) (auto simp: engineEvent_def loopEvent_def callEvent_def split: event.splits)

lemma DoRequest_cells:
  assumes "DoRequest e fuel verb url bdy opts s = Some (out, s')"
  shows "cells s' = cells s"
proof -
  obtain s0 s1 where "requestFrame e s0 s1" "cells s0 = cells s" "cells s' = cells s1"
    using DoRequest_frame[OF assms] by blast
  then show ?thesis unfolding requestFrame_def by simp
qed

lemma DoRequest_trace:
  assumes "DoRequest e fuel verb url bdy opts s = Some (out, s')"
  shows "\<exists>evs. trace s' = trace s @ evs \<and> list_all callEvent evs"
proof (cases "circuitBreaker (rb s)")
  case None
  with assms have "doRequest e fuel verb url bdy (foldl (\<lambda>ro opt. opt ro) zero_reqOptions opts) s
      = Some (out, s')"
    by (simp add: DoRequest_def Let_def)
  from doRequest_frame[OF this] show ?thesis
    unfolding requestFrame_def using engine_call by blast
next
  case (Some cb)
  let ?opt = "foldl (\<lambda>ro opt. opt ro) zero_reqOptions opts"
  obtain a eo where al: "Allow cb = (a, eo)" by (cases "Allow cb") auto
  show ?thesis
  proof (cases eo)
    case Some': (Some err)
    with assms Some al have "s' = log BreakerAllow s" by (simp add: DoRequest_def Let_def)
    then have "trace s' = trace s @ [BreakerAllow]" by (simp add: log_def)
    moreover have "list_all callEvent [BreakerAllow]" by (simp add: callEvent_def)
    ultimately show ?thesis by blast
  next
    case None
    obtain o1 s1 where d: "doRequest e fuel verb url bdy ?opt (log BreakerAllow s) = Some (o1, s1)"
      using assms Some al None
      by (cases "doRequest e fuel verb url bdy ?opt (log BreakerAllow s)")
        (auto simp: DoRequest_def Let_def)
    obtain e1 where e1: "trace s1 = trace (log BreakerAllow s) @ e1" "list_all callEvent e1"
      using doRequest_frame[OF d] unfolding requestFrame_def using engine_call by blast
    have "\<exists>e2. trace s' = trace s1 @ e2 \<and> list_all callEvent e2"
      using assms Some al None d
      by (auto simp: DoRequest_def Let_def callAfter_def log_def callEvent_def
          split: outcome.splits if_splits option.splits)
    then obtain e2 where e2: "trace s' = trace s1 @ e2" "list_all callEvent e2" by blast
    have "trace s' = trace s @ (BreakerAllow # e1 @ e2)" "list_all callEvent (BreakerAllow # e1 @ e2)"
      using e1 e2 by (simp_all add: log_def callEvent_def)
    then show ?thesis by blast
  qed
qed

lemma call_no_store: "list_all callEvent evs \<Longrightarrow> FutureStore a \<notin> set evs"
  by (induction evs) (auto simp: callEvent_def)

text \<open>
  C9. A verb method of \<open>Concurrent\<close> executes nothing. \<open>Get\<close>, \<open>Delete\<close>, \<open>Head\<close> and
  \<open>Options\<close> queue their own verb with a nil body; \<open>Post\<close>, \<open>Put\<close> and \<open>Patch\<close> queue
  their own verb with the body they were given. The call leaves the builder, the cache
  and the trace as they are, allocates a cell, appends to \<open>c.futures\<close> one closure that
  holds this cell, the verb, the URL, the body and the options, and returns the cell,
  whose \<open>Response()\<close> is nil. Running another closure does not change what \<open>Response()\<close>
  of this cell yields. Running this closure calls the builder's \<open>DoRequest\<close> with that
  verb, URL, body and options; when \<open>DoRequest\<close> returns, its \<open>*Response\<close> is stored,
  exactly once and after \<open>DoRequest\<close> returned, and \<open>Response()\<close> yields exactly it from
  then on.
\<close>

theorem Concurrent_verb_defers:
  assumes call: "(call, verb, b) \<in> set
       [(Concurrent_Get c url opts s, ''GET'', None),
        (Concurrent_Post c url bdy opts s, ''POST'', bdy),
        (Concurrent_Put c url bdy opts s, ''PUT'', bdy),
        (Concurrent_Patch c url bdy opts s, ''PATCH'', bdy),
        (Concurrent_Delete c url opts s, ''DELETE'', None),
        (Concurrent_Head c url opts s, ''HEAD'', None),
        (Concurrent_Options c url opts s, ''OPTIONS'', None)]"
    and a: "a = length (cells s)"
    and f: "f = \<lparr>fr = a, fVerb = verb, fURL = url, fBody = b, fOpts = opts\<rparr>"
  shows "call = (a, c\<lparr>futures := futures c @ [f]\<rparr>, s\<lparr>cells := cells s @ [None]\<rparr>)
       \<and> FutureResponse_Response (s\<lparr>cells := cells s @ [None]\<rparr>) a = None
       \<and> (\<forall>s2 r s'. DoRequest e fuel verb url b opts s2 = Some (Returns r, s') \<longrightarrow>
              run_future e fuel f s2
                = Some (True, log (FutureStore a) (s'\<lparr>cells := (cells s')[a := Some r]\<rparr>)))
       \<and> (\<forall>s2 s3. a < length (cells s2) \<and> run_future e fuel f s2 = Some (True, s3) \<longrightarrow>
              (\<exists>r s' evs. DoRequest e fuel verb url b opts s2 = Some (Returns r, s')
                 \<and> FutureResponse_Response s3 a = r
                 \<and> trace s' = trace s2 @ evs \<and> FutureStore a \<notin> set evs
                 \<and> trace s3 = trace s' @ [FutureStore a]))
       \<and> (\<forall>g s2 s3 ok. fr g \<noteq> a \<and> run_future e fuel g s2 = Some (ok, s3) \<longrightarrow>
              FutureResponse_Response s3 a = FutureResponse_Response s2 a)"
proof -
  have cd: "call = Concurrent_DoRequest c verb url b opts s"
    using call
    by (auto simp: Concurrent_Get_def Concurrent_Post_def Concurrent_Put_def Concurrent_Patch_def
        Concurrent_Delete_def Concurrent_Head_def Concurrent_Options_def)
  have res: "call = (a, c\<lparr>futures := futures c @ [f]\<rparr>, s\<lparr>cells := cells s @ [None]\<rparr>)"
    using cd by (simp add: Concurrent_DoRequest_def Let_def f a)
  have nil: "FutureResponse_Response (s\<lparr>cells := cells s @ [None]\<rparr>) a = None"
    by (simp add: FutureResponse_Response_def a)
  have store: "\<forall>s2 r s'. DoRequest e fuel verb url b opts s2 = Some (Returns r, s') \<longrightarrow>
              run_future e fuel f s2
                = Some (True, log (FutureStore a) (s'\<lparr>cells := (cells s')[a := Some r]\<rparr>))"
    by (simp add: run_future_def f)
  have run: "\<forall>s2 s3. a < length (cells s2) \<and> run_future e fuel f s2 = Some (True, s3) \<longrightarrow>
                   (\<exists>r s' evs. DoRequest e fuel verb url b opts s2 = Some (Returns r, s')
                      \<and> FutureResponse_Response s3 a = r
                      \<and> trace s' = trace s2 @ evs \<and> FutureStore a \<notin> set evs
                      \<and> trace s3 = trace s' @ [FutureStore a])"
  proof (intro allI impI)
    fix s2 s3
    assume h: "a < length (cells s2) \<and> run_future e fuel f s2 = Some (True, s3)"
    then obtain r s' where d: "DoRequest e fuel verb url b opts s2 = Some (Returns r, s')"
      and s3: "s3 = log (FutureStore a) (s'\<lparr>cells := (cells s')[a := Some r]\<rparr>)"
      by (auto simp: run_future_def f split: option.splits outcome.splits)
    have cl: "cells s' = cells s2" using d by (rule DoRequest_cells)
    obtain evs where ev: "trace s' = trace s2 @ evs" "list_all callEvent evs"
      using DoRequest_trace[OF d] by blast
    have "FutureResponse_Response s3 a = r"
      using h by (simp add: FutureResponse_Response_def s3 log_def cl)
    moreover have "trace s3 = trace s' @ [FutureStore a]" by (simp add: s3 log_def)
    ultimately show "\<exists>r s' evs. DoRequest e fuel verb url b opts s2 = Some (Returns r, s')
                      \<and> FutureResponse_Response s3 a = r
                      \<and> trace s' = trace s2 @ evs \<and> FutureStore a \<notin> set evs
                      \<and> trace s3 = trace s' @ [FutureStore a]"
      using d ev call_no_store by blast
  qed
  have other: "\<forall>g s2 s3 ok. fr g \<noteq> a \<and> run_future e fuel g s2 = Some (ok, s3) \<longrightarrow>
              FutureResponse_Response s3 a = FutureResponse_Response s2 a"
  proof (intro allI impI)
    fix g s2 s3 ok
    assume h: "fr g \<noteq> a \<and> run_future e fuel g s2 = Some (ok, s3)"
    then obtain out s' where d: "DoRequest e fuel (fVerb g) (fURL g) (fBody g) (fOpts g) s2 = Some (out, s')"
      by (auto simp: run_future_def split: option.splits)
    have cl: "cells s' = cells s2" using d by (rule DoRequest_cells)
    have "cells s3 = cells s2 \<or> (\<exists>r. cells s3 = (cells s2)[fr g := Some r])"
      using h d cl by (auto simp: run_future_def log_def split: outcome.splits)
    then show "FutureResponse_Response s3 a = FutureResponse_Response s2 a"
      using h by (auto simp: FutureResponse_Response_def)
  qed
  show ?thesis using res nil store run other by blast
qed

theorem Concurrent_verb_defers_witness:
  "Concurrent_Get conc0 ''/items'' [] state0
     = (0, \<lparr>futures = [\<lparr>fr = 0, fVerb = ''GET'', fURL = ''/items'', fBody = None, fOpts = []\<rparr>]\<rparr>,
        state0\<lparr>cells := [None]\<rparr>)
   \<and> Concurrent_Post conc0 ''/items'' (Some (Obj ''item'')) [] state0
     = (0, \<lparr>futures = [\<lparr>fr = 0, fVerb = ''POST'', fURL = ''/items'', fBody = Some (Obj ''item''),
                          fOpts = []\<rparr>]\<rparr>,
        state0\<lparr>cells := [None]\<rparr>)
   \<and> Concurrent_Delete conc0 ''/items'' [] state0
     = (0, \<lparr>futures = [\<lparr>fr = 0, fVerb = ''DELETE'', fURL = ''/items'', fBody = None, fOpts = []\<rparr>]\<rparr>,
        state0\<lparr>cells := [None]\<rparr>)
   \<and> FutureResponse_Response (state0\<lparr>cells := [None]\<rparr>) 0 = None
   \<and> map_option (\<lambda>(ok, s3). (ok, FutureResponse_Response s3 0,
                    filter (\<lambda>ev. ev = FutureStore 0) (trace s3)))
        (run_future env0 1 \<lparr>fr = 0, fVerb = ''GET'', fURL = ''/items'', fBody = None, fOpts = []\<rparr>
           (state0\<lparr>cells := [None]\<rparr>))
      = Some (True, Some (new_Response\<lparr>http := Some ok200, byteBody := ''ok''\<rparr>), [FutureStore 0])
   \<and> map_option (\<lambda>(ok, s3). (ok, FutureResponse_Response s3 0))
        (run_future env0 1 \<lparr>fr = 1, fVerb = ''GET'', fURL = ''/other'', fBody = None, fOpts = []\<rparr>
           (state0\<lparr>cells := [None, None]\<rparr>))
      = Some (True, None)"
proof -
  let ?f = "\<lparr>fr = 0, fVerb = ''GET'', fURL = ''/items'', fBody = None, fOpts = []\<rparr> :: future"
  let ?p = "\<lparr>fr = 0, fVerb = ''POST'', fURL = ''/items'', fBody = Some (Obj ''item''),
             fOpts = []\<rparr> :: future"
  let ?d = "\<lparr>fr = 0, fVerb = ''DELETE'', fURL = ''/items'', fBody = None, fOpts = []\<rparr> :: future"
  let ?s1 = "state0\<lparr>cells := [None]\<rparr>"
  let ?R = "new_Response\<lparr>http := Some ok200, byteBody := ''ok''\<rparr>"
  have a0: "(0::nat) = length (cells state0)" by (simp add: state0_def)
  have c0: "conc0\<lparr>futures := futures conc0 @ [g]\<rparr> = \<lparr>futures = [g]\<rparr>" for g
    by (simp add: conc0_def)
  have s0: "state0\<lparr>cells := cells state0 @ [None]\<rparr> = ?s1" by (simp add: state0_def)
  have T: "Concurrent_Get conc0 ''/items'' [] state0 = (0, \<lparr>futures = [?f]\<rparr>, ?s1)
       \<and> FutureResponse_Response ?s1 0 = None
       \<and> (\<forall>s2 r s'. DoRequest env0 1 ''GET'' ''/items'' None [] s2 = Some (Returns r, s') \<longrightarrow>
              run_future env0 1 ?f s2
                = Some (True, log (FutureStore 0) (s'\<lparr>cells := (cells s')[0 := Some r]\<rparr>)))
       \<and> (\<forall>s2 s3. 0 < length (cells s2) \<and> run_future env0 1 ?f s2 = Some (True, s3) \<longrightarrow>
              (\<exists>r s' evs. DoRequest env0 1 ''GET'' ''/items'' None [] s2 = Some (Returns r, s')
                 \<and> FutureResponse_Response s3 0 = r
                 \<and> trace s' = trace s2 @ evs \<and> FutureStore 0 \<notin> set evs
                 \<and> trace s3 = trace s' @ [FutureStore 0]))
       \<and> (\<forall>g s2 s3 ok. fr g \<noteq> 0 \<and> run_future env0 1 g s2 = Some (ok, s3) \<longrightarrow>
              FutureResponse_Response s3 0 = FutureResponse_Response s2 0)"
    using Concurrent_verb_defers [where call = "Concurrent_Get conc0 ''/items'' [] state0"
        and verb = "''GET''" and b = None and c = conc0 and url = "''/items''" and opts = "[]"
        and s = state0 and bdy = None and a = 0 and f = ?f and e = env0 and fuel = 1, OF _ a0 refl]
    unfolding c0 s0 by simp
  have P: "Concurrent_Post conc0 ''/items'' (Some (Obj ''item'')) [] state0
             = (0, \<lparr>futures = [?p]\<rparr>, ?s1)"
    using Concurrent_verb_defers [where call = "Concurrent_Post conc0 ''/items'' (Some (Obj ''item'')) [] state0"
        and verb = "''POST''" and b = "Some (Obj ''item'')" and c = conc0 and url = "''/items''"
        and opts = "[]" and s = state0 and bdy = "Some (Obj ''item'')" and a = 0 and f = ?p
        and e = env0 and fuel = 1, OF _ a0 refl]
    unfolding c0 s0 by simp
  have D: "Concurrent_Delete conc0 ''/items'' [] state0 = (0, \<lparr>futures = [?d]\<rparr>, ?s1)"
    using Concurrent_verb_defers [where call = "Concurrent_Delete conc0 ''/items'' [] state0"
        and verb = "''DELETE''" and b = None and c = conc0 and url = "''/items''"
        and opts = "[]" and s = state0 and bdy = None and a = 0 and f = ?d
        and e = env0 and fuel = 1, OF _ a0 refl]
    unfolding c0 s0 by simp
  have res: "Concurrent_Get conc0 ''/items'' [] state0 = (0, \<lparr>futures = [?f]\<rparr>, ?s1)"
    using T by blast
  have nil: "FutureResponse_Response ?s1 0 = None" using T by blast
  have run: "\<forall>s2 s3. 0 < length (cells s2) \<and> run_future env0 1 ?f s2 = Some (True, s3) \<longrightarrow>
              (\<exists>r s' evs. DoRequest env0 1 ''GET'' ''/items'' None [] s2 = Some (Returns r, s')
                 \<and> FutureResponse_Response s3 0 = r
                 \<and> trace s' = trace s2 @ evs \<and> FutureStore 0 \<notin> set evs
                 \<and> trace s3 = trace s' @ [FutureStore 0])"
    using T by blast
  have other: "\<forall>g s2 s3 ok. fr g \<noteq> 0 \<and> run_future env0 1 g s2 = Some (ok, s3) \<longrightarrow>
              FutureResponse_Response s3 0 = FutureResponse_Response s2 0"
    using T by blast
  have "map_option fst (run_future env0 1 ?f ?s1) = Some True" by code_simp
  then obtain s3 where r3: "run_future env0 1 ?f ?s1 = Some (True, s3)"
    by (cases "run_future env0 1 ?f ?s1") auto
  have len: "0 < length (cells ?s1)" by simp
  obtain r s' evs where d: "DoRequest env0 1 ''GET'' ''/items'' None [] ?s1 = Some (Returns r, s')"
      "FutureResponse_Response s3 0 = r" "trace s' = trace ?s1 @ evs" "FutureStore 0 \<notin> set evs"
      "trace s3 = trace s' @ [FutureStore 0]"
    using run len r3 by fastforce
  have "map_option fst (DoRequest env0 1 ''GET'' ''/items'' None [] ?s1) = Some (Returns (Some ?R))"
    by code_simp
  then have r: "r = Some ?R" using d(1) by simp
  have t0: "trace ?s1 = []" by (simp add: state0_def)
  have "filter (\<lambda>ev. ev = FutureStore 0) evs = []"
    using d(4) by (auto simp: filter_empty_conv)
  then have "filter (\<lambda>ev. ev = FutureStore 0) (trace s3) = [FutureStore 0]"
    by (simp add: d(5) d(3) t0)
  then have 1: "map_option (\<lambda>(ok, s3). (ok, FutureResponse_Response s3 0,
                    filter (\<lambda>ev. ev = FutureStore 0) (trace s3)))
        (run_future env0 1 ?f ?s1) = Some (True, Some ?R, [FutureStore 0])"
    using r3 d(2) r by simp
  let ?g = "\<lparr>fr = 1, fVerb = ''GET'', fURL = ''/other'', fBody = None, fOpts = []\<rparr> :: future"
  let ?s2 = "state0\<lparr>cells := [None, None]\<rparr>"
  have "map_option fst (run_future env0 1 ?g ?s2) = Some True" by code_simp
  then obtain s4 where r4: "run_future env0 1 ?g ?s2 = Some (True, s4)"
    by (cases "run_future env0 1 ?g ?s2") auto
  have ne: "fr ?g \<noteq> 0" by simp
  have "FutureResponse_Response s4 0 = FutureResponse_Response ?s2 0"
    using other ne r4 by blast
  then have 2: "map_option (\<lambda>(ok, s3). (ok, FutureResponse_Response s3 0))
        (run_future env0 1 ?g ?s2) = Some (True, None)"
    using r4 by (simp add: FutureResponse_Response_def)
  show ?thesis using res P D nil 1 2 by simp
qed

section \<open>An invariant of the cache\<close>

text \<open>
  Every Response that \<open>doRequest\<close> stores in the cache has its embedded response: if
  all cached Responses have one before a call to \<open>DoRequest\<close>, all have one after it.
\<close>

lemma cacheLookup_inv:
  assumes "cacheInv s" "cacheLookup e verb u s = (cr, s1)"
  shows "cacheInv s1"
  using assms
  by (auto simp: cacheInv_def cacheLookup_def cache_get_def log_def Let_def
      split: if_splits option.splits)

lemma respond_inv:
  assumes "cacheInv s" "respond e verb cu cr hr s = (out, s')"
  shows "cacheInv s'"
proof (cases "Body hr")
  case (Inl err)
  with assms show ?thesis by (simp add: respond_def)
next
  case (Inr rbody)
  show ?thesis
  proof (cases "EnableCache (rb s) \<and> StatusCode hr = 304")
    case True
    with assms Inr show ?thesis by (simp add: respond_def)
  next
    case False
    obtain r1 p where db: "decodeBody e (rb s) hr rbody (new_Response\<lparr>http := Some hr\<rparr>) = (r1, p)"
      by (cases "decodeBody e (rb s) hr rbody (new_Response\<lparr>http := Some hr\<rparr>)") auto
    have h1: "http r1 = Some hr" using decodeBody_fields[OF db] by simp
    obtain found result where cmeta: "cacheMeta e r1 = Some (found, result)"
      using cacheMeta_total[of r1 e] h1 by auto
    have h2: "http result = Some hr" using cacheMeta_http[OF cmeta] h1 by simp
    have "s' = s \<or> s' = cache_setNX cu result s"
      using assms(2) Inr False db cmeta by (auto simp: respond_def split: if_splits)
    then show ?thesis
      using assms(1) h2
      by (auto simp: cacheInv_def cache_setNX_def log_def Let_def split: option.splits if_splits)
  qed
qed

lemma doRequest_inv:
  assumes inv: "cacheInv s" and d: "doRequest e fuel verb url bdy opt s = Some (out, s')"
  shows "cacheInv s'"
proof -
  obtain cr s1 where cl: "cacheLookup e verb (BaseURL (rb s) @ url) s = (cr, s1)"
    by (cases "cacheLookup e verb (BaseURL (rb s) @ url) s") auto
  have i1: "cacheInv s1" using inv cl by (rule cacheLookup_inv)
  have i2: "cacheInv (dropConditional s1)"
    using i1 by (simp add: cacheInv_def dropConditional_def)
  from doRequest_cases[OF d cl]
  consider "s' = s1" | "s' = dropConditional s1"
    | u b cu lr s3 where "retryLoop e fuel verb u b cr cu opt 0 (dropConditional s1) = Some (lr, s3)"
        "s' = s3 \<or> (\<exists>hr. respond e verb cu cr hr s3 = (out, s'))"
    by blast
  then show ?thesis
  proof cases
    case 1
    then show ?thesis using i1 by simp
  next
    case 2
    then show ?thesis using i2 by simp
  next
    case 3
    from retryLoop_frame[OF 3(1)] have "cache s3 = cache (dropConditional s1)"
      unfolding loopFrame_def by simp
    then have i3: "cacheInv s3" using i2 by (simp add: cacheInv_def)
    from 3(2) show ?thesis
    proof
      assume "s' = s3"
      then show ?thesis using i3 by simp
    next
      assume "\<exists>hr. respond e verb cu cr hr s3 = (out, s')"
      then obtain hr where "respond e verb cu cr hr s3 = (out, s')" by blast
      from respond_inv[OF i3 this] show ?thesis .
    qed
  qed
qed

lemma DoRequest_inv:
  assumes inv: "cacheInv s" and d: "DoRequest e fuel verb url bdy opts s = Some (out, s')"
  shows "cacheInv s'"
proof -
  let ?opt = "foldl (\<lambda>ro opt. opt ro) zero_reqOptions opts"
  show ?thesis
  proof (cases "circuitBreaker (rb s)")
    case None
    with d have "doRequest e fuel verb url bdy ?opt s = Some (out, s')"
      by (simp add: DoRequest_def Let_def)
    from doRequest_inv[OF inv this] show ?thesis .
  next
    case (Some cb)
    have l: "cacheInv (log BreakerAllow s)" using inv by (simp add: cacheInv_def log_def)
    obtain a eo where al: "Allow cb = (a, eo)" by (cases "Allow cb") auto
    show ?thesis
    proof (cases eo)
      case Some': (Some err)
      with d Some al have "s' = log BreakerAllow s" by (simp add: DoRequest_def Let_def)
      then show ?thesis using l by simp
    next
      case None
      obtain o1 t1 where dr: "doRequest e fuel verb url bdy ?opt (log BreakerAllow s) = Some (o1, t1)"
        using d Some al None
        by (cases "doRequest e fuel verb url bdy ?opt (log BreakerAllow s)")
          (auto simp: DoRequest_def Let_def)
      have i1: "cacheInv t1" using doRequest_inv[OF l dr] .
      have "cache s' = cache t1"
        using d Some al None dr
        by (auto simp: DoRequest_def Let_def callAfter_def log_def
            split: outcome.splits if_splits option.splits)
      then show ?thesis using i1 by (simp add: cacheInv_def)
    qed
  qed
qed

end
